theory Spec2Isabelle
  imports Complex_Main
begin

section \<open>The post image processor: a shallow embedding of the two handlers\<close>

text \<open>
  The repository holds two variants of one Lambda handler,
  \<^verbatim>\<open>post-image-processor/index_with_bedrock.mjs\<close> (labels from Rekognition, embedding
  from Bedrock Titan) and \<^verbatim>\<open>post-image-processor/index_old.mjs\<close> (description and
  embedding from OpenAI). Both run the same loop over \<^verbatim>\<open>event.Records\<close> inside one
  \<^verbatim>\<open>try / catch / finally\<close>.

  JavaScript strings are modelled as \<^typ>\<open>string\<close>, a list of bytes read as UTF-8:
  the separators \<^verbatim>\<open>/\<close>, \<^verbatim>\<open>.\<close>, \<^verbatim>\<open>+\<close> and \<^verbatim>\<open>%\<close> are ASCII and never occur inside
  a multi-byte sequence, so splitting on bytes agrees with splitting on code units.
\<close>

subsection \<open>Errors\<close>

text \<open>A thrown \<^verbatim>\<open>Error\<close> object: its \<^verbatim>\<open>name\<close> and its \<^verbatim>\<open>message\<close>.\<close>

datatype error = Error (ename: string) (message: string)

definition TypeError_split :: error where
  \<comment> \<open>\<^verbatim>\<open>undefined.split(".")\<close>, in V8's wording\<close>
  "TypeError_split =
     Error ''TypeError'' ''Cannot read properties of undefined (reading 'split')''"

definition TypeError_reading :: "string \<Rightarrow> string \<Rightarrow> error" where
  \<comment> \<open>the property \<open>p\<close> read on \<open>base\<close>, which is \<^verbatim>\<open>undefined\<close> or \<^verbatim>\<open>null\<close>\<close>
  "TypeError_reading base p =
     Error ''TypeError'' (''Cannot read properties of '' @ base @ '' (reading ''
        @ [CHR 0x27] @ p @ [CHR 0x27] @ '')'')"

definition URIError :: error where
  "URIError = Error ''URIError'' ''URI malformed''"

subsection \<open>String operations of the handlers\<close>

text \<open>\<^verbatim>\<open>key.replace(/\+/g, " ")\<close>\<close>

definition replace_plus :: "string \<Rightarrow> string" where
  "replace_plus s = map (\<lambda>c. if c = CHR ''+'' then CHR '' '' else c) s"

text \<open>
  \<^verbatim>\<open>decodeURIComponent\<close>, after ECMAScript's Decode with an empty preserved set: an
  escape is \<^verbatim>\<open>%\<close> and two hex digits; an octet with a leading 1 bit must open a
  well-formed UTF-8 sequence whose further octets are escapes too; everything else
  throws \<^verbatim>\<open>URIError\<close>. Every failure throws the same error, so the escapes are read
  first (\<open>tokens\<close>) and grouped afterwards (\<open>assemble\<close>).
\<close>

definition hex_digit :: "char \<Rightarrow> nat option" where
  "hex_digit c =
     (let n = (of_char c :: nat) in
      if 48 \<le> n \<and> n \<le> 57 then Some (n - 48)
      else if 65 \<le> n \<and> n \<le> 70 then Some (n - 55)
      else if 97 \<le> n \<and> n \<le> 102 then Some (n - 87)
      else None)"

datatype tok = Lit char | Oct nat

fun tokens :: "string \<Rightarrow> tok list option" where
  "tokens [] = Some []"
| "tokens (c # cs) =
     (if c = CHR ''%'' then
        (case cs of
           a # b # rest \<Rightarrow>
             (case (hex_digit a, hex_digit b) of
                (Some h, Some l) \<Rightarrow> map_option (Cons (Oct (16 * h + l))) (tokens rest)
              | _ \<Rightarrow> None)
         | _ \<Rightarrow> None)
      else map_option (Cons (Lit c)) (tokens cs))"

definition leading_ones :: "nat \<Rightarrow> nat" where
  "leading_ones b =
     (if b < 128 then 0 else if b < 192 then 1 else if b < 224 then 2
      else if b < 240 then 3 else if b < 248 then 4 else 5)"

fun octets :: "nat \<Rightarrow> tok list \<Rightarrow> nat list option" where
  "octets 0 ts = Some []"
| "octets (Suc j) (Oct b # ts) = map_option (Cons b) (octets j ts)"
| "octets (Suc j) _ = None"

definition cont :: "nat \<Rightarrow> bool" where
  "cont b = (128 \<le> b \<and> b < 192)"

fun valid_utf8 :: "nat list \<Rightarrow> bool" where
  "valid_utf8 [a, b] = (194 \<le> a \<and> a \<le> 223 \<and> cont b)"
| "valid_utf8 [a, b, c] =
     (cont c \<and>
      (if a = 224 then 160 \<le> b \<and> b < 192
       else if a = 237 then 128 \<le> b \<and> b < 160
       else 225 \<le> a \<and> a \<le> 239 \<and> cont b))"
| "valid_utf8 [a, b, c, d] =
     (cont c \<and> cont d \<and>
      (if a = 240 then 144 \<le> b \<and> b < 192
       else if a = 244 then 128 \<le> b \<and> b < 144
       else 241 \<le> a \<and> a \<le> 243 \<and> cont b))"
| "valid_utf8 _ = False"

fun assemble :: "tok list \<Rightarrow> string option" where
  "assemble [] = Some []"
| "assemble (Lit c # ts) = map_option (Cons c) (assemble ts)"
| "assemble (Oct b # ts) =
     (let n = leading_ones b in
      if n = 0 then map_option (Cons (char_of b)) (assemble ts)
      else if n = 1 \<or> 4 < n then None
      else
        (case octets (n - 1) ts of
           None \<Rightarrow> None
         | Some bs \<Rightarrow>
             if valid_utf8 (b # bs)
             then map_option (append (map char_of (b # bs))) (assemble (drop (n - 1) ts))
             else None))"

definition decodeURIComponent :: "string \<Rightarrow> error + string" where
  "decodeURIComponent s =
     (case Option.bind (tokens s) assemble of
        None \<Rightarrow> Inl URIError
      | Some r \<Rightarrow> Inr r)"

text \<open>
  \<^verbatim>\<open>s.split(sep)\<close> for a one-character separator: the pieces between the
  separators, empty pieces kept; never an empty array.
\<close>

fun js_split :: "char \<Rightarrow> string \<Rightarrow> string list" where
  "js_split sep [] = [[]]"
| "js_split sep (c # cs) =
     (if c = sep then [] # js_split sep cs
      else (case js_split sep cs of
              [] \<Rightarrow> [[c]]
            | x # xs \<Rightarrow> (c # x) # xs))"

text \<open>
  \<^verbatim>\<open>key.split("/")[2].split(".")[0]\<close>: the third segment is \<^verbatim>\<open>undefined\<close> when the
  path has fewer than three, and \<^verbatim>\<open>.split\<close> on it throws a \<^verbatim>\<open>TypeError\<close>. The first
  piece of the second split always exists (\<open>js_split_not_Nil\<close> below).
\<close>

definition postId_of :: "string \<Rightarrow> error + string" where
  "postId_of key =
     (case drop 2 (js_split CHR ''/'' key) of
        [] \<Rightarrow> Inl TypeError_split
      | seg # _ \<Rightarrow> Inr (hd (js_split CHR ''.'' seg)))"

text \<open>
  \<^verbatim>\<open>String.prototype.trim\<close>: white space and line terminators are removed at both
  ends. \<open>ws_len\<close> is the length in bytes of the white-space code point at the head of
  the string (TAB, LF, VT, FF, CR, SP, U+00A0, U+1680, U+2000 to U+200A, U+2028,
  U+2029, U+202F, U+205F, U+3000, U+FEFF), or 0; \<open>ws_len_rev\<close> reads the same code
  points from the end of the string, given reversed.
\<close>

definition ascii_ws :: "char \<Rightarrow> bool" where
  "ascii_ws c = (let n = (of_char c :: nat) in (9 \<le> n \<and> n \<le> 13) \<or> n = 32)"

fun ws_len :: "string \<Rightarrow> nat" where
  "ws_len [] = 0"
| "ws_len (a # s) =
     (if ascii_ws a then 1
      else
        (case map of_char (take 3 (a # s)) of
           [x, y, z] \<Rightarrow>
             (if x = (194::nat) \<and> y = 160 then 2
              else if x = 225 \<and> y = 154 \<and> z = 128 then 3
              else if x = 226 \<and> y = 128 \<and> ((128 \<le> z \<and> z \<le> 138) \<or> z = 168 \<or> z = 169 \<or> z = 175) then 3
              else if x = 226 \<and> y = 129 \<and> z = 159 then 3
              else if x = 227 \<and> y = 128 \<and> z = 128 then 3
              else if x = 239 \<and> y = 187 \<and> z = 191 then 3
              else 0)
         | [x, y] \<Rightarrow> (if x = (194::nat) \<and> y = 160 then 2 else 0)
         | _ \<Rightarrow> 0))"

fun ws_len_rev :: "string \<Rightarrow> nat" where
  "ws_len_rev [] = 0"
| "ws_len_rev (a # s) =
     (if ascii_ws a then 1
      else if ws_len (rev (take 2 (a # s))) = 2 then 2
      else if ws_len (rev (take 3 (a # s))) = 3 then 3
      else 0)"

fun strip :: "(string \<Rightarrow> nat) \<Rightarrow> nat \<Rightarrow> string \<Rightarrow> string" where
  \<comment> \<open>drop white-space code points from the head; the fuel is the string's length\<close>
  "strip len 0 s = s"
| "strip len (Suc k) s = (if len s = 0 then s else strip len k (drop (len s) s))"

definition trimStart :: "string \<Rightarrow> string" where
  "trimStart s = strip ws_len (length s) s"

definition trimEnd :: "string \<Rightarrow> string" where
  "trimEnd s = rev (strip ws_len_rev (length s) (rev s))"

definition trim :: "string \<Rightarrow> string" where
  "trim s = trimEnd (trimStart s)"

text \<open>
  The code points that ECMAScript calls white space or line terminator, each as the
  bytes of its UTF-8 encoding: what \<^verbatim>\<open>trim\<close> is expected to remove. \<open>white\<close> holds of
  a run of such code points; \<open>starts_white\<close> and \<open>ends_white\<close> hold of a string whose
  first, or last, code point is one of them.
\<close>

definition white_space :: "nat list list" where
  "white_space =
     [[9], [10], [11], [12], [13], [32], [194, 160], [225, 154, 128],
      [226, 128, 128], [226, 128, 129], [226, 128, 130], [226, 128, 131],
      [226, 128, 132], [226, 128, 133], [226, 128, 134], [226, 128, 135],
      [226, 128, 136], [226, 128, 137], [226, 128, 138],
      [226, 128, 168], [226, 128, 169], [226, 128, 175], [226, 129, 159],
      [227, 128, 128], [239, 187, 191]]"

inductive white :: "string \<Rightarrow> bool" where
  white_Nil: "white []"
| white_Cons: "map of_char e \<in> set white_space \<Longrightarrow> white s \<Longrightarrow> white (e @ s)"

definition starts_white :: "string \<Rightarrow> bool" where
  "starts_white s = (\<exists>e \<in> set white_space. take (length e) (map of_char s) = e)"

definition ends_white :: "string \<Rightarrow> bool" where
  "ends_white s =
     (\<exists>e \<in> set white_space. length e \<le> length s
        \<and> drop (length s - length e) (map of_char s) = e)"

text \<open>
  \<^verbatim>\<open>String.prototype.toLowerCase\<close> follows Unicode's case mapping. On a string of
  ASCII characters that mapping turns the letters A to Z into a to z and keeps every
  other character; \<open>ascii_lower\<close> is applied to such strings only. The case mapping
  of a string that holds a code point outside ASCII (a byte from 128 on in UTF-8) is
  not carried by the model: it is the parameter \<open>unicode\<close>, which the handler reads
  from its environment (\<open>unicode_toLowerCase\<close> below).
\<close>

definition ascii :: "string \<Rightarrow> bool" where
  "ascii s = list_all (\<lambda>c. (of_char c :: nat) < 128) s"

definition ascii_lower :: "char \<Rightarrow> char" where
  "ascii_lower c =
     (let n = (of_char c :: nat) in if 65 \<le> n \<and> n \<le> 90 then char_of (n + 32) else c)"

definition toLowerCase :: "(string \<Rightarrow> string) \<Rightarrow> string \<Rightarrow> string" where
  "toLowerCase unicode s = (if ascii s then map ascii_lower s else unicode s)"

text \<open>
  The lower-case letter of each capital of the ASCII alphabet, as a table: what
  \<^verbatim>\<open>toLowerCase\<close> is expected to do to a character of an ASCII string.
\<close>

definition lower_table :: "(char \<times> char) list" where
  "lower_table = zip ''ABCDEFGHIJKLMNOPQRSTUVWXYZ'' ''abcdefghijklmnopqrstuvwxyz''"

definition lower_letter :: "char \<Rightarrow> char" where
  "lower_letter c = (case map_of lower_table c of None \<Rightarrow> c | Some l \<Rightarrow> l)"

text \<open>\<^verbatim>\<open>xs.join(sep)\<close> on an array of strings.\<close>

fun join :: "string \<Rightarrow> string list \<Rightarrow> string" where
  "join sep [] = []"
| "join sep [x] = x"
| "join sep (x # y # ys) = x @ sep @ join sep (y # ys)"

text \<open>
  \<^verbatim>\<open>JSON.stringify\<close> on a string (QuoteJSONString) and on an object with one
  property whose value is already serialised.
\<close>

definition hex_char :: "nat \<Rightarrow> char" where
  "hex_char n = (if n < 10 then char_of (48 + n) else char_of (87 + n))"

definition json_escape :: "char \<Rightarrow> string" where
  "json_escape c =
     (let n = (of_char c :: nat) in
      if n = 8 then [CHR 0x5C, CHR ''b'']
      else if n = 9 then [CHR 0x5C, CHR ''t'']
      else if n = 10 then [CHR 0x5C, CHR ''n'']
      else if n = 12 then [CHR 0x5C, CHR ''f'']
      else if n = 13 then [CHR 0x5C, CHR ''r'']
      else if n = 34 then [CHR 0x5C, CHR 0x22]
      else if n = 92 then [CHR 0x5C, CHR 0x5C]
      else if n < 32 then
        [CHR 0x5C, CHR ''u'', CHR ''0'', CHR ''0'', hex_char (n div 16), hex_char (n mod 16)]
      else [c])"

definition json_quote :: "string \<Rightarrow> string" where
  "json_quote s = [CHR 0x22] @ concat (map json_escape s) @ [CHR 0x22]"

definition json_object1 :: "string \<Rightarrow> string \<Rightarrow> string" where
  "json_object1 k v = ''{'' @ json_quote k @ '':'' @ v @ ''}''"

subsection \<open>Values, documents, points\<close>

text \<open>
  The values a post document's field holds when the handler reads it. A field the
  document lacks reads as \<^verbatim>\<open>undefined\<close>. Strings and \<^verbatim>\<open>null\<close> are modelled; other BSON
  types are outside the model.
\<close>

datatype jsval = Undefined | Null | Str string

type_synonym doc = "string \<rightharpoonup> jsval"

definition field :: "doc \<Rightarrow> string \<Rightarrow> jsval" where
  "field d k = (case d k of None \<Rightarrow> Undefined | Some v \<Rightarrow> v)"

text \<open>A destructuring default \<^verbatim>\<open>{ caption = "" }\<close> applies to \<^verbatim>\<open>undefined\<close> only.\<close>

definition default_to :: "jsval \<Rightarrow> jsval \<Rightarrow> jsval" where
  "default_to d v = (if v = Undefined then d else v)"

text \<open>ToBoolean, and ToString as a template literal applies it.\<close>

fun truthy :: "jsval \<Rightarrow> bool" where
  "truthy Undefined = False"
| "truthy Null = False"
| "truthy (Str s) = (s \<noteq> [])"

fun to_string :: "jsval \<Rightarrow> string" where
  "to_string Undefined = ''undefined''"
| "to_string Null = ''null''"
| "to_string (Str s) = s"

type_synonym bytes = string

type_synonym vec = "real list"

text \<open>
  An \<^verbatim>\<open>ObjectId\<close> of the record store. What the constructor makes of a string is a
  parameter of the environment; the concrete constructor below names an id by its 24
  hex digits in lower case.
\<close>

datatype object_id = OID string

text \<open>A payload value: a document value, or the \<^verbatim>\<open>Date\<close> of \<^verbatim>\<open>new Date()\<close>.\<close>

datatype pval = Val jsval | DateVal nat

record point =
  point_id :: string
  vector :: vec
  payload :: "(string \<times> pval) list"

text \<open>One record of \<^verbatim>\<open>event.Records\<close>: \<^verbatim>\<open>s3.bucket.name\<close> and \<^verbatim>\<open>s3.object.key\<close>.\<close>

record s3_record =
  bucket_name :: string
  object_key :: string

record event =
  Records :: "s3_record list"

record response =
  statusCode :: nat
  body :: string

subsection \<open>The services\<close>

text \<open>
  A readable stream: the chunks it emits, then \<^verbatim>\<open>end\<close> or \<^verbatim>\<open>error\<close>.
\<close>

datatype stream = Stream (chunks: "bytes list") (failure: "error option")

text \<open>
  A label of the detector's response and the response; the SDK types both
  \<^verbatim>\<open>Labels\<close> and \<^verbatim>\<open>Name\<close> as optional.
\<close>

datatype label = Label (Name: "string option")

datatype rek_response = DetectLabelsResponse (Labels: "label list option")

text \<open>The remote calls, as the trace records them, with their arguments.\<close>

datatype call =
    MongoConnect
  | FindOne object_id
  | GetObject string string
  | DetectLabels bytes nat nat
  | InvokeModel string string
  | ChatCompletion string bytes
  | EmbeddingsCreate string string
  | UpdateOne object_id "(string \<times> jsval) list"
  | QdrantUpsert string "point list"
  | MongoClose

text \<open>
  What the handler cannot decide: the answers of the services, the constructor of
  the driver's \<^verbatim>\<open>ObjectId\<close>, the random \<^verbatim>\<open>uuidv4\<close> and the clock. Each answer may
  depend on the moment of the call, a counter that every effect advances, so a
  service may answer the same request differently the second time.
  \<^item> \<open>ObjectId\<close>: \<^verbatim>\<open>new ObjectId(s)\<close>, which throws on a string that is no object id;
  \<^item> \<open>connect\<close>, \<open>findOne\<close>, \<open>updateOne\<close>, \<open>qdrant_upsert\<close>: \<open>Some e\<close> when the call
    rejects with \<open>e\<close>; what a call that resolves does to the store is in the model;
  \<^item> \<open>s3_send\<close>, \<open>rekognition_send\<close>, \<open>chat_create\<close>, \<open>embeddings_create\<close>: the
    response, or the rejection;
  \<^item> \<open>bedrock_send\<close>: the \<^verbatim>\<open>embedding\<close> of the parsed response body, or the rejection
    (a body that does not parse is a rejection with a \<^verbatim>\<open>SyntaxError\<close>);
  \<^item> \<open>chat_create\<close>: \<^verbatim>\<open>message.content\<close> of each element of \<^verbatim>\<open>choices\<close>, \<open>None\<close>
    for \<^verbatim>\<open>null\<close>; \<open>embeddings_create\<close>: \<^verbatim>\<open>embedding\<close> of each element of \<^verbatim>\<open>data\<close>;
  \<^item> \<open>unicode_toLowerCase\<close>: what \<^verbatim>\<open>String.prototype.toLowerCase\<close> returns on a string
    that holds a code point outside ASCII (Unicode's case mapping, a table of the
    JavaScript engine); it is never consulted on a string of ASCII characters.
\<close>

record env =
  ObjectId :: "string \<Rightarrow> error + object_id"
  connect :: "nat \<Rightarrow> error option"
  findOne :: "nat \<Rightarrow> object_id \<Rightarrow> error option"
  s3_send :: "nat \<Rightarrow> string \<Rightarrow> string \<Rightarrow> error + stream"
  rekognition_send :: "nat \<Rightarrow> bytes \<Rightarrow> error + rek_response"
  bedrock_send :: "nat \<Rightarrow> string \<Rightarrow> error + vec"
  chat_create :: "nat \<Rightarrow> bytes \<Rightarrow> error + string option list"
  embeddings_create :: "nat \<Rightarrow> string \<Rightarrow> error + vec list"
  updateOne :: "nat \<Rightarrow> object_id \<Rightarrow> (string \<times> jsval) list \<Rightarrow> error option"
  qdrant_upsert :: "nat \<Rightarrow> string \<Rightarrow> point list \<Rightarrow> error option"
  uuidv4 :: "nat \<Rightarrow> string"
  Date_now :: "nat \<Rightarrow> nat"
  unicode_toLowerCase :: "string \<Rightarrow> string"

text \<open>
  The state outside the handler: the \<^verbatim>\<open>posts\<close> collection of the record store, the
  collections of the vector index, the trace of remote calls and the counter. Within
  an invocation nothing else writes to the store or the index.
\<close>

record world =
  posts :: "object_id \<rightharpoonup> doc"
  qdrant :: "string \<Rightarrow> point list"
  calls :: "call list"
  clock :: nat

subsection \<open>Effects: state passing with exceptions\<close>

type_synonym 'a io = "world \<Rightarrow> (error + 'a) \<times> world"

definition io_return :: "'a \<Rightarrow> 'a io" where
  "io_return x = (\<lambda>w. (Inr x, w))"

definition io_lift :: "error + 'a \<Rightarrow> 'a io" where
  \<comment> \<open>a pure step that may throw\<close>
  "io_lift r = (\<lambda>w. (r, w))"

definition io_bind :: "'a io \<Rightarrow> ('a \<Rightarrow> 'b io) \<Rightarrow> 'b io" where
  \<comment> \<open>sequencing: a throw skips the rest\<close>
  "io_bind m f =
     (\<lambda>w. case m w of
            (Inl e, w') \<Rightarrow> (Inl e, w')
          | (Inr x, w') \<Rightarrow> f x w')"

definition traced :: "call \<Rightarrow> world \<Rightarrow> world" where
  \<comment> \<open>the call is appended to the trace and the counter advances\<close>
  "traced c w = w\<lparr>calls := calls w @ [c], clock := Suc (clock w)\<rparr>"

definition remote :: "call \<Rightarrow> (nat \<Rightarrow> error + 'a) \<Rightarrow> 'a io" where
  \<comment> \<open>an awaited remote call: traced, answered at the current moment\<close>
  "remote c answer = (\<lambda>w. (answer (clock w), traced c w))"

definition rejects :: "error option \<Rightarrow> error + unit" where
  "rejects r = (case r of Some e \<Rightarrow> Inl e | None \<Rightarrow> Inr ())"

subsection \<open>The gateways\<close>

text \<open>
  The record store and the vector index are services outside the repository. What a
  call that resolves does to them follows the drivers' documented behaviour:
  \<^verbatim>\<open>findOne\<close> reads, \<^verbatim>\<open>updateOne\<close> with \<^verbatim>\<open>$set\<close> writes the given fields of the matching
  document, \<^verbatim>\<open>upsert\<close> replaces or adds a point by its id.
\<close>

text \<open>\<^verbatim>\<open>mongo.connect()\<close> and \<^verbatim>\<open>mongo.close()\<close>; the driver's close resolves.\<close>

definition mongo_connect :: "env \<Rightarrow> unit io" where
  "mongo_connect env = remote MongoConnect (\<lambda>n. rejects (connect env n))"

definition mongo_close :: "world \<Rightarrow> world" where
  "mongo_close w = traced MongoClose w"

text \<open>\<^verbatim>\<open>posts.findOne({ _id })\<close>: the document, or \<^verbatim>\<open>null\<close> (\<open>None\<close>).\<close>

definition posts_findOne :: "env \<Rightarrow> object_id \<Rightarrow> doc option io" where
  "posts_findOne env i =
     (\<lambda>w. remote (FindOne i)
            (\<lambda>n. case findOne env n i of Some e \<Rightarrow> Inl e | None \<Rightarrow> Inr (posts w i)) w)"

text \<open>
  \<^verbatim>\<open>posts.updateOne({ _id }, { $set: fields })\<close>: the fields are written into the
  matching document, which keeps its other fields; no document matching, nothing is
  written.
\<close>

definition set_fields :: "(string \<times> jsval) list \<Rightarrow> doc \<Rightarrow> doc" where
  "set_fields fs d = fold (\<lambda>(k, v) m. m(k \<mapsto> v)) fs d"

definition write_fields :: "object_id \<Rightarrow> (string \<times> jsval) list \<Rightarrow> unit io" where
  "write_fields i fs =
     (\<lambda>w. (Inr (),
            case posts w i of
              None \<Rightarrow> w
            | Some d \<Rightarrow> w\<lparr>posts := (posts w)(i \<mapsto> set_fields fs d)\<rparr>))"

definition posts_updateOne :: "env \<Rightarrow> object_id \<Rightarrow> (string \<times> jsval) list \<Rightarrow> unit io" where
  "posts_updateOne env i fs =
     io_bind (remote (UpdateOne i fs) (\<lambda>n. rejects (updateOne env n i fs)))
       (\<lambda>_. write_fields i fs)"

text \<open>
  \<^verbatim>\<open>qdrant.upsert(collection, { points })\<close>: a point replaces the point of the same
  id, or is added.
\<close>

fun upsert_point :: "point \<Rightarrow> point list \<Rightarrow> point list" where
  "upsert_point p [] = [p]"
| "upsert_point p (q # qs) =
     (if point_id q = point_id p then p # qs else q # upsert_point p qs)"

definition write_points :: "string \<Rightarrow> point list \<Rightarrow> unit io" where
  "write_points coll ps =
     (\<lambda>w. (Inr (), w\<lparr>qdrant := (qdrant w)(coll := fold upsert_point ps (qdrant w coll))\<rparr>))"

definition qdrant_client_upsert :: "env \<Rightarrow> string \<Rightarrow> point list \<Rightarrow> unit io" where
  "qdrant_client_upsert env coll ps =
     io_bind (remote (QdrantUpsert coll ps) (\<lambda>n. rejects (qdrant_upsert env n coll ps)))
       (\<lambda>_. write_points coll ps)"

text \<open>\<^verbatim>\<open>uuidv4()\<close> and \<^verbatim>\<open>new Date()\<close>: local, not traced; a draw advances the counter.\<close>

definition uuid :: "env \<Rightarrow> string io" where
  "uuid env = (\<lambda>w. (Inr (uuidv4 env (clock w)), w\<lparr>clock := Suc (clock w)\<rparr>))"

definition new_Date :: "env \<Rightarrow> nat io" where
  "new_Date env = (\<lambda>w. (Inr (Date_now env (clock w)), w))"

text \<open>\<^verbatim>\<open>streamToBufferPromise\<close> and \<^verbatim>\<open>downloadImage\<close>, the same in both files.\<close>

definition streamToBufferPromise :: "stream \<Rightarrow> error + bytes" where
  "streamToBufferPromise s =
     (case failure s of Some e \<Rightarrow> Inl e | None \<Rightarrow> Inr (concat (chunks s)))"

definition downloadImage :: "env \<Rightarrow> string \<Rightarrow> string \<Rightarrow> bytes io" where
  "downloadImage env bucket key =
     io_bind (remote (GetObject bucket key) (\<lambda>n. s3_send env n bucket key))
       (\<lambda>resp. io_lift (streamToBufferPromise resp))"

subsection \<open>The steps of the loop body\<close>

text \<open>
  \<^verbatim>\<open>rekResp.Labels.map((l) => l.Name).join(", ")\<close>: reading \<^verbatim>\<open>map\<close> of a missing
  \<^verbatim>\<open>Labels\<close> throws; \<^verbatim>\<open>join\<close> writes a missing name as the empty string.
\<close>

definition label_names :: "rek_response \<Rightarrow> error + string" where
  "label_names r =
     (case Labels r of
        None \<Rightarrow> Inl (TypeError_reading ''undefined'' ''map'')
      | Some ls \<Rightarrow>
          Inr (join '', '' (map (\<lambda>l. case Name l of None \<Rightarrow> [] | Some n \<Rightarrow> n) ls)))"

text \<open>
  The description of index_with_bedrock.mjs, line 64; the letter after \<^verbatim>\<open>cont\<close> is
  U+00E9, two bytes in UTF-8.
\<close>

definition describe_labels :: "env \<Rightarrow> string \<Rightarrow> string" where
  "describe_labels env labels =
     ''A imagem cont'' @ [CHR 0xC3, CHR 0xA9] @ ''m: ''
       @ toLowerCase (unicode_toLowerCase env) labels @ ''.''"

text \<open>
  \<^verbatim>\<open>visionResponse.choices[0].message.content.trim()\<close> of index_old.mjs, line 71.
\<close>

definition vision_description :: "string option list \<Rightarrow> error + string" where
  "vision_description choices =
     (case choices of
        [] \<Rightarrow> Inl (TypeError_reading ''undefined'' ''message'')
      | None # _ \<Rightarrow> Inl (TypeError_reading ''null'' ''trim'')
      | Some content # _ \<Rightarrow> Inr (trim content))"

text \<open>\<^verbatim>\<open>embeddingResp.data[0].embedding\<close> of index_old.mjs, line 84.\<close>

definition first_embedding :: "vec list \<Rightarrow> error + vec" where
  "first_embedding data =
     (case data of
        [] \<Rightarrow> Inl (TypeError_reading ''undefined'' ''embedding'')
      | v # _ \<Rightarrow> Inr v)"

text \<open>
  The combined text, the same expression in both files:
  \<^verbatim>\<open>caption ? `${caption} ${imageDescription}`.trim() : imageDescription\<close>.
\<close>

definition combinedText :: "jsval \<Rightarrow> string \<Rightarrow> string" where
  "combinedText caption imageDescription =
     (if truthy caption then trim (to_string caption @ '' '' @ imageDescription)
      else imageDescription)"

datatype outcome = Skipped | Processed

text \<open>
  The loop body of index_with_bedrock.mjs, lines 38 to 114. \<open>Skipped\<close> is the
  \<^verbatim>\<open>continue\<close> of line 45.
\<close>

definition process_bedrock :: "env \<Rightarrow> s3_record \<Rightarrow> outcome io" where
  "process_bedrock env record =
     (let bucket = bucket_name record in
      io_bind (io_lift (decodeURIComponent (replace_plus (object_key record)))) (\<lambda>key.
      io_bind (io_lift (postId_of key)) (\<lambda>postId.
      io_bind (io_lift (ObjectId env postId)) (\<lambda>i.
      io_bind (posts_findOne env i) (\<lambda>found.
      case found of
        None \<Rightarrow> io_return Skipped
      | Some post \<Rightarrow>
         (let userId = field post ''userId'';
              caption = default_to (Str []) (field post ''caption'') in
          io_bind (downloadImage env bucket key) (\<lambda>imageBuffer.
          io_bind (remote (DetectLabels imageBuffer 10 75)
                     (\<lambda>n. rekognition_send env n imageBuffer)) (\<lambda>rekResp.
          io_bind (io_lift (label_names rekResp)) (\<lambda>labels.
          (let imageDescription = describe_labels env labels;
               text = combinedText caption imageDescription;
               request = json_object1 ''inputText'' (json_quote text) in
           io_bind (remote (InvokeModel ''amazon.titan-embed-text-v2:0'' request)
                      (\<lambda>n. bedrock_send env n request)) (\<lambda>embedding.
           io_bind (uuid env) (\<lambda>embeddingId.
           io_bind (io_lift (ObjectId env postId)) (\<lambda>j.
           io_bind (posts_updateOne env j
                      [(''status'', Str ''processed''), (''embeddingId'', Str embeddingId)]) (\<lambda>_.
           io_bind (qdrant_client_upsert env ''posts''
                      [\<lparr>point_id = embeddingId, vector = embedding,
                        payload = [(''postId'', Val (Str postId)), (''userId'', Val userId),
                                   (''caption'', Val caption),
                                   (''imageDescription'', Val (Str imageDescription))]\<rparr>]) (\<lambda>_.
           io_return Processed)))))))))))))))"

text \<open>The loop body of index_old.mjs, lines 37 to 108.\<close>

definition process_old :: "env \<Rightarrow> s3_record \<Rightarrow> outcome io" where
  "process_old env record =
     (let bucket = bucket_name record in
      io_bind (io_lift (decodeURIComponent (replace_plus (object_key record)))) (\<lambda>key.
      io_bind (io_lift (postId_of key)) (\<lambda>postId.
      io_bind (io_lift (ObjectId env postId)) (\<lambda>i.
      io_bind (posts_findOne env i) (\<lambda>found.
      case found of
        None \<Rightarrow> io_return Skipped
      | Some post \<Rightarrow>
         (let userId = field post ''userId'';
              caption = default_to (Str []) (field post ''caption'') in
          io_bind (downloadImage env bucket key) (\<lambda>imageBuffer.
          io_bind (remote (ChatCompletion ''gpt-4o-mini'' imageBuffer)
                     (\<lambda>n. chat_create env n imageBuffer)) (\<lambda>choices.
          io_bind (io_lift (vision_description choices)) (\<lambda>imageDescription.
          (let text = combinedText caption imageDescription in
           io_bind (remote (EmbeddingsCreate ''text-embedding-3-small'' text)
                      (\<lambda>n. embeddings_create env n text)) (\<lambda>data.
           io_bind (io_lift (first_embedding data)) (\<lambda>embedding.
           io_bind (io_lift (ObjectId env postId)) (\<lambda>j.
           io_bind (posts_updateOne env j
                      [(''status'', Str ''processed''),
                       (''imageDescription'', Str imageDescription)]) (\<lambda>_.
           io_bind (uuid env) (\<lambda>pointId.
           io_bind (new_Date env) (\<lambda>createdAt.
           io_bind (qdrant_client_upsert env ''posts''
                      [\<lparr>point_id = pointId, vector = embedding,
                        payload = [(''postId'', Val (Str postId)), (''userId'', Val userId),
                                   (''caption'', Val caption),
                                   (''imageDescription'', Val (Str imageDescription)),
                                   (''createdAt'', DateVal createdAt)]\<rparr>]) (\<lambda>_.
           io_return Processed)))))))))))))))))"

subsection \<open>The handler\<close>

datatype variant = Bedrock | Old

definition process :: "variant \<Rightarrow> env \<Rightarrow> s3_record \<Rightarrow> outcome io" where
  "process v = (case v of Bedrock \<Rightarrow> process_bedrock | Old \<Rightarrow> process_old)"

text \<open>\<^verbatim>\<open>for (const record of event.Records)\<close>: a throw leaves the loop.\<close>

fun for_records :: "(s3_record \<Rightarrow> outcome io) \<Rightarrow> s3_record list \<Rightarrow> unit io" where
  "for_records step [] = io_return ()"
| "for_records step (r # rs) = io_bind (step r) (\<lambda>_. for_records step rs)"

text \<open>
  \<^verbatim>\<open>try { connect; loop; return 200 } catch { return 500 } finally { close }\<close>, the
  same text in both files. The response and the state the invocation leaves.
\<close>

definition handler :: "variant \<Rightarrow> env \<Rightarrow> event \<Rightarrow> world \<Rightarrow> response \<times> world" where
  "handler v env ev w =
     (case io_bind (mongo_connect env) (\<lambda>_. for_records (process v env) (Records ev)) w of
        (Inr _, w') \<Rightarrow>
          (\<lparr>statusCode = 200, body = json_object1 ''success'' ''true''\<rparr>, mongo_close w')
      | (Inl e, w') \<Rightarrow>
          (\<lparr>statusCode = 500, body = json_object1 ''error'' (json_quote (message e))\<rparr>,
           mongo_close w'))"

subsection \<open>Reading the trace and the index\<close>

text \<open>The upserts of a trace, in order: the collection and the points of each.\<close>

fun upserts :: "call list \<Rightarrow> (string \<times> point list) list" where
  "upserts [] = []"
| "upserts (QdrantUpsert coll ps # cs) = (coll, ps) # upserts cs"
| "upserts (_ # cs) = upserts cs"

text \<open>The state after \<^verbatim>\<open>mongo.connect()\<close> has resolved.\<close>

definition after_connect :: "world \<Rightarrow> world" where
  "after_connect w = traced MongoConnect w"

text \<open>
  The fields each variant persists besides \<^verbatim>\<open>status\<close>, and the property names of
  the payload it indexes (index_with_bedrock.mjs lines 96 to 99 and 109,
  index_old.mjs lines 90 to 93 and 103).
\<close>

fun enrichment_fields :: "variant \<Rightarrow> string list" where
  "enrichment_fields Bedrock = [''status'', ''embeddingId'']"
| "enrichment_fields Old = [''status'', ''imageDescription'']"

fun payload_fields :: "variant \<Rightarrow> string list" where
  "payload_fields Bedrock = [''postId'', ''userId'', ''caption'', ''imageDescription'']"
| "payload_fields Old =
     [''postId'', ''userId'', ''caption'', ''imageDescription'', ''createdAt'']"

subsection \<open>What a completed run of the loop body leaves\<close>

text \<open>
  The values a run of the loop body of index_with_bedrock.mjs builds when it starts in
  the state \<open>w\<close> and no step throws: the combined text (lines 69 to 71), the request
  body (lines 74 to 76), the \<^verbatim>\<open>$set\<close> document (lines 96 to 99), the point (lines 106
  to 110), and the state after the upsert. The identity is drawn fifth, after the
  lookup, the download, the detection and the embedding.
\<close>

definition bedrock_text :: "env \<Rightarrow> doc \<Rightarrow> string \<Rightarrow> string" where
  "bedrock_text env post labels =
     combinedText (default_to (Str []) (field post ''caption'')) (describe_labels env labels)"

definition bedrock_request :: "env \<Rightarrow> doc \<Rightarrow> string \<Rightarrow> string" where
  "bedrock_request env post labels =
     json_object1 ''inputText'' (json_quote (bedrock_text env post labels))"

definition bedrock_set :: "env \<Rightarrow> world \<Rightarrow> (string \<times> jsval) list" where
  "bedrock_set env w =
     [(''status'', Str ''processed''), (''embeddingId'', Str (uuidv4 env (clock w + 4)))]"

definition bedrock_point :: "env \<Rightarrow> world \<Rightarrow> string \<Rightarrow> doc \<Rightarrow> string \<Rightarrow> vec \<Rightarrow> point" where
  "bedrock_point env w postId post labels emb =
     \<lparr>point_id = uuidv4 env (clock w + 4), vector = emb,
      payload = [(''postId'', Val (Str postId)),
                 (''userId'', Val (field post ''userId'')),
                 (''caption'', Val (default_to (Str []) (field post ''caption''))),
                 (''imageDescription'', Val (Str (describe_labels env labels)))]\<rparr>"

definition bedrock_done ::
  "env \<Rightarrow> world \<Rightarrow> s3_record \<Rightarrow> string \<Rightarrow> string \<Rightarrow> object_id \<Rightarrow> doc \<Rightarrow> stream \<Rightarrow> string
     \<Rightarrow> vec \<Rightarrow> world" where
  "bedrock_done env w r key postId i post st labels emb =
     w\<lparr>posts := (posts w)(i \<mapsto> set_fields (bedrock_set env w) post),
       qdrant := (qdrant w)(''posts'' :=
         upsert_point (bedrock_point env w postId post labels emb) (qdrant w ''posts'')),
       calls := calls w @
         [FindOne i, GetObject (bucket_name r) key,
          DetectLabels (concat (chunks st)) 10 75,
          InvokeModel ''amazon.titan-embed-text-v2:0'' (bedrock_request env post labels),
          UpdateOne i (bedrock_set env w),
          QdrantUpsert ''posts'' [bedrock_point env w postId post labels emb]],
       clock := clock w + 7\<rparr>"

text \<open>
  The same for index_old.mjs: the combined text (lines 75 to 77), the \<^verbatim>\<open>$set\<close>
  document (lines 90 to 93), the point (lines 100 to 104), and the state after the
  upsert. The identity is drawn sixth, after the update; the date is read next.
\<close>

definition old_text :: "doc \<Rightarrow> string \<Rightarrow> string" where
  "old_text post desc = combinedText (default_to (Str []) (field post ''caption'')) desc"

definition old_set :: "string \<Rightarrow> (string \<times> jsval) list" where
  "old_set desc = [(''status'', Str ''processed''), (''imageDescription'', Str desc)]"

definition old_point :: "env \<Rightarrow> world \<Rightarrow> string \<Rightarrow> doc \<Rightarrow> string \<Rightarrow> vec \<Rightarrow> point" where
  "old_point env w postId post desc emb =
     \<lparr>point_id = uuidv4 env (clock w + 5), vector = emb,
      payload = [(''postId'', Val (Str postId)),
                 (''userId'', Val (field post ''userId'')),
                 (''caption'', Val (default_to (Str []) (field post ''caption''))),
                 (''imageDescription'', Val (Str desc)),
                 (''createdAt'', DateVal (Date_now env (clock w + 6)))]\<rparr>"

definition old_done ::
  "env \<Rightarrow> world \<Rightarrow> s3_record \<Rightarrow> string \<Rightarrow> string \<Rightarrow> object_id \<Rightarrow> doc \<Rightarrow> stream \<Rightarrow> string
     \<Rightarrow> vec \<Rightarrow> world" where
  "old_done env w r key postId i post st desc emb =
     w\<lparr>posts := (posts w)(i \<mapsto> set_fields (old_set desc) post),
       qdrant := (qdrant w)(''posts'' :=
         upsert_point (old_point env w postId post desc emb) (qdrant w ''posts'')),
       calls := calls w @
         [FindOne i, GetObject (bucket_name r) key,
          ChatCompletion ''gpt-4o-mini'' (concat (chunks st)),
          EmbeddingsCreate ''text-embedding-3-small'' (old_text post desc),
          UpdateOne i (old_set desc),
          QdrantUpsert ''posts'' [old_point env w postId post desc emb]],
       clock := clock w + 7\<rparr>"

subsection \<open>A backend call that fails\<close>

text \<open>
  The record is found and its image downloaded, and then one of the four backend
  calls of the loop body rejects with \<open>e\<close>, the calls before it having resolved:
  describe (the label detector, or the vision model), embed, persist
  (\<^verbatim>\<open>updateOne\<close>) or index (\<^verbatim>\<open>upsert\<close>).
\<close>

definition backend_fails :: "variant \<Rightarrow> env \<Rightarrow> s3_record \<Rightarrow> world \<Rightarrow> error \<Rightarrow> bool" where
  "backend_fails v env r w e =
     (\<exists>key postId i post st.
        decodeURIComponent (replace_plus (object_key r)) = Inr key \<and>
        postId_of key = Inr postId \<and> ObjectId env postId = Inr i \<and>
        findOne env (clock w) i = None \<and> posts w i = Some post \<and>
        s3_send env (clock w + 1) (bucket_name r) key = Inr st \<and> failure st = None \<and>
        (case v of
           Bedrock \<Rightarrow>
             rekognition_send env (clock w + 2) (concat (chunks st)) = Inl e \<or>
             (\<exists>rek labels.
                rekognition_send env (clock w + 2) (concat (chunks st)) = Inr rek \<and>
                label_names rek = Inr labels \<and>
                (bedrock_send env (clock w + 3) (bedrock_request env post labels) = Inl e \<or>
                 (\<exists>emb.
                    bedrock_send env (clock w + 3) (bedrock_request env post labels) = Inr emb \<and>
                    (updateOne env (clock w + 5) i (bedrock_set env w) = Some e \<or>
                     updateOne env (clock w + 5) i (bedrock_set env w) = None \<and>
                     qdrant_upsert env (clock w + 6) ''posts''
                       [bedrock_point env w postId post labels emb] = Some e))))
         | Old \<Rightarrow>
             chat_create env (clock w + 2) (concat (chunks st)) = Inl e \<or>
             (\<exists>choices desc.
                chat_create env (clock w + 2) (concat (chunks st)) = Inr choices \<and>
                vision_description choices = Inr desc \<and>
                (embeddings_create env (clock w + 3) (old_text post desc) = Inl e \<or>
                 (\<exists>data emb.
                    embeddings_create env (clock w + 3) (old_text post desc) = Inr data \<and>
                    first_embedding data = Inr emb \<and>
                    (updateOne env (clock w + 4) i (old_set desc) = Some e \<or>
                     updateOne env (clock w + 4) i (old_set desc) = None \<and>
                     qdrant_upsert env (clock w + 6) ''posts''
                       [old_point env w postId post desc emb] = Some e))))))"

subsection \<open>Stores that differ in some fields only\<close>

text \<open>
  The store \<open>ps'\<close> holds the documents of \<open>ps\<close>, under the same ids, and each document
  has kept every field that is not among \<open>fs\<close>.
\<close>

definition same_but :: "string list \<Rightarrow> (object_id \<rightharpoonup> doc) \<Rightarrow> (object_id \<rightharpoonup> doc) \<Rightarrow> bool" where
  "same_but fs ps ps' =
     (\<forall>j. case ps j of
            None \<Rightarrow> ps' j = None
          | Some d \<Rightarrow> (\<exists>d'. ps' j = Some d' \<and> (\<forall>f. f \<notin> set fs \<longrightarrow> d' f = d f)))"

text \<open>A step keeps the store but for the fields \<open>fs\<close>, whatever it returns or throws.\<close>

definition preserves :: "string list \<Rightarrow> 'a io \<Rightarrow> bool" where
  "preserves fs m = (\<forall>w. same_but fs (posts w) (posts (snd (m w))))"

subsection \<open>The records of a batch that have a post\<close>

text \<open>
  The post id and the object id a record resolves to (lines 39 to 42 of
  index_with_bedrock.mjs, 38 to 41 of index_old.mjs), when nothing throws; and the
  post ids of the records of a batch whose post is in the store \<open>ps\<close>, in order.
\<close>

definition resolve :: "env \<Rightarrow> s3_record \<Rightarrow> (string \<times> object_id) option" where
  "resolve env r =
     (case decodeURIComponent (replace_plus (object_key r)) of
        Inl _ \<Rightarrow> None
      | Inr key \<Rightarrow>
          (case postId_of key of
             Inl _ \<Rightarrow> None
           | Inr postId \<Rightarrow>
               (case ObjectId env postId of
                  Inl _ \<Rightarrow> None
                | Inr i \<Rightarrow> Some (postId, i))))"

definition present_ids :: "env \<Rightarrow> (object_id \<rightharpoonup> doc) \<Rightarrow> s3_record list \<Rightarrow> string list" where
  "present_ids env ps rs =
     concat (map (\<lambda>r. case resolve env r of
                         None \<Rightarrow> []
                       | Some (postId, i) \<Rightarrow> (if ps i = None then [] else [postId])) rs)"

text \<open>The collection and the payload \<^verbatim>\<open>postId\<close> of each point, for each upsert of a trace.\<close>

definition upserted_ids :: "call list \<Rightarrow> (string \<times> pval option list) list" where
  "upserted_ids cs =
     map (\<lambda>(coll, ps). (coll, map (\<lambda>p. map_of (payload p) ''postId'') ps)) (upserts cs)"

subsection \<open>A concrete environment\<close>

text \<open>
  \<^verbatim>\<open>new ObjectId(s)\<close> of the current driver: a string of 24 hex digits, or a
  \<^verbatim>\<open>BSONError\<close>.
\<close>

definition ObjectId_hex24 :: "string \<Rightarrow> error + object_id" where
  "ObjectId_hex24 s =
     (if length s = 24 \<and> list_all (\<lambda>c. hex_digit c \<noteq> None) s then Inr (OID (map ascii_lower s))
      else Inl (Error ''BSONError''
             ''input must be a 24 character hex string, 12 byte Uint8Array, or an integer''))"

text \<open>
  Services that answer every call: two labels, a two-number embedding, one choice,
  and a \<^verbatim>\<open>uuidv4\<close> that never repeats (the moment of the draw, in unary). The label
  names are ASCII, so \<open>unicode_toLowerCase\<close> is never consulted; any function does.
\<close>

definition ok_env :: env where
  "ok_env =
     \<lparr>ObjectId = ObjectId_hex24,
      connect = (\<lambda>_. None),
      findOne = (\<lambda>_ _. None),
      s3_send = (\<lambda>_ _ _. Inr (Stream [''ab'', ''cd''] None)),
      rekognition_send =
        (\<lambda>_ _. Inr (DetectLabelsResponse (Some [Label (Some ''Sky''), Label (Some ''Cloud'')]))),
      bedrock_send = (\<lambda>_ _. Inr [1, 2]),
      chat_create = (\<lambda>_ _. Inr [Some '' a sunset '']),
      embeddings_create = (\<lambda>_ _. Inr [[1, 2]]),
      updateOne = (\<lambda>_ _ _. None),
      qdrant_upsert = (\<lambda>_ _ _. None),
      uuidv4 = (\<lambda>n. replicate n CHR ''u''),
      Date_now = (\<lambda>n. n),
      unicode_toLowerCase = (\<lambda>s. s)\<rparr>"

text \<open>The same services, but the embedding backends reject every call.\<close>

definition embed_down :: error where
  "embed_down = Error ''ThrottlingException'' ''Too many requests''"

definition failing_env :: env where
  "failing_env =
     ok_env\<lparr>bedrock_send := (\<lambda>_ _. Inl embed_down),
            embeddings_create := (\<lambda>_ _. Inl embed_down)\<rparr>"

text \<open>A store with one post, an empty index, and records that name it or not.\<close>

definition p1 :: object_id where
  "p1 = OID ''0123456789abcdef01234567''"

definition store1 :: world where
  "store1 =
     \<lparr>posts = [p1 \<mapsto> [''userId'' \<mapsto> Str ''u1'', ''caption'' \<mapsto> Str ''sunset'']],
      qdrant = (\<lambda>_. []),
      calls = [],
      clock = 0\<rparr>"

definition rec_p1 :: s3_record where
  "rec_p1 = \<lparr>bucket_name = ''uploads'', object_key = ''posts/u1/0123456789abcdef01234567.jpg''\<rparr>"

definition rec_absent :: s3_record where
  "rec_absent = \<lparr>bucket_name = ''uploads'', object_key = ''posts/u1/ffffffffffffffffffffffff.jpg''\<rparr>"

definition rec_short :: s3_record where
  "rec_short = \<lparr>bucket_name = ''uploads'', object_key = ''posts/p1.jpg''\<rparr>"

definition rec_bad_id :: s3_record where
  "rec_bad_id = \<lparr>bucket_name = ''uploads'', object_key = ''posts/u1/p1.jpg''\<rparr>"

section \<open>Properties\<close>

subsection \<open>Strings\<close>

lemma js_split_not_Nil: "js_split sep s \<noteq> []"
  by (induction s) (auto split: list.splits)

lemma ascii_append: "ascii (a @ b) \<longleftrightarrow> ascii a \<and> ascii b"
  by (simp add: ascii_def)

lemma ascii_join_sep: "ascii sep \<Longrightarrow> list_all ascii xs \<Longrightarrow> ascii (join sep xs)"
  by (induction sep xs rule: join.induct) (simp_all add: ascii_append, simp add: ascii_def)

lemma ascii_join: "list_all ascii xs \<Longrightarrow> ascii (join '', '' xs)"
  by (rule ascii_join_sep) (simp_all add: ascii_def)

lemma join_concat: "join sep xs = drop (length sep) (concat (map (\<lambda>x. sep @ x) xs))"
  by (induction sep xs rule: join.induct) simp_all

lemma map_join: "map f (join sep xs) = join (map f sep) (map (map f) xs)"
  by (induction sep xs rule: join.induct) simp_all

text \<open>
  \<open>trim\<close> removes a run of white space at each end and leaves a string that neither
  starts nor ends with white space.
\<close>

lemma ws_range:
  "128 \<le> z \<Longrightarrow> z \<le> 138 \<Longrightarrow>
   z = 128 \<or> z = 129 \<or> z = 130 \<or> z = 131 \<or> z = 132 \<or> z = 133 \<or> z = 134 \<or> z = 135
     \<or> z = 136 \<or> z = 137 \<or> z = (138::nat)"
  by arith

lemma ascii_ws_cases:
  "ascii_ws a \<Longrightarrow>
   (of_char a :: nat) = 9 \<or> (of_char a :: nat) = 10 \<or> (of_char a :: nat) = 11
     \<or> (of_char a :: nat) = 12 \<or> (of_char a :: nat) = 13 \<or> (of_char a :: nat) = 32"
  unfolding ascii_ws_def Let_def by arith

lemma ws_len_white:
  assumes "ws_len s \<noteq> 0"
  shows "map of_char (take (ws_len s) s) \<in> set white_space \<and> ws_len s \<le> length s"
proof (cases s)
  case Nil
  with assms show ?thesis by simp
next
  case (Cons a s')
  show ?thesis
  proof (cases "ascii_ws a")
    case True
    then show ?thesis using ascii_ws_cases [OF True] by (auto simp add: Cons white_space_def)
  next
    case False
    show ?thesis
    proof (cases s')
      case Nil
      with assms False Cons show ?thesis by simp
    next
      case c2: (Cons b s'')
      show ?thesis
      proof (cases s'')
        case Nil
        with assms False Cons c2 show ?thesis
          by (simp add: white_space_def split: if_splits)
      next
        case c3: (Cons c s''')
        from assms False Cons c2 c3 show ?thesis
          using ws_range [of "of_char c"]
          by (auto simp add: white_space_def split: if_splits)
      qed
    qed
  qed
qed

lemma white_space_lengths:
  "e \<in> set white_space \<Longrightarrow>
   e \<in> {[9], [10], [11], [12], [13], [32]} \<or> e = [194, 160]
     \<or> (length e = 3 \<and> e \<in> set (filter (\<lambda>e. length e = 3) white_space))"
  apply (simp add: white_space_def)
  apply (elim disjE)
  apply simp_all
  done

lemma ws_len_1: "(of_char a :: nat) \<in> {9, 10, 11, 12, 13, 32} \<Longrightarrow> ws_len (a # s) = 1"
  by (auto simp add: ascii_ws_def)

lemma ws_len_2: "of_char a = (194::nat) \<Longrightarrow> of_char b = (160::nat) \<Longrightarrow> ws_len (a # b # s) = 2"
  by (cases s) (simp_all add: ascii_ws_def)

lemma ws_len_3:
  "[of_char a, of_char b, of_char c] \<in> set (filter (\<lambda>e. length e = 3) white_space)
   \<Longrightarrow> ws_len (a # b # c # s) = 3"
  apply (simp add: white_space_def del: ws_len.simps)
  apply (elim disjE conjE)
  apply (simp_all add: ascii_ws_def)
  done

lemma ws_len_rev_1: "(of_char a :: nat) \<in> {9, 10, 11, 12, 13, 32} \<Longrightarrow> ws_len_rev (a # s) = 1"
  by (auto simp add: ascii_ws_def)

lemma ws_len_rev_2:
  "of_char b = (194::nat) \<Longrightarrow> of_char a = (160::nat) \<Longrightarrow> ws_len_rev (a # b # s) = 2"
  by (simp add: ascii_ws_def)

lemma ws_len_rev_3:
  "[of_char c, of_char b, of_char a] \<in> set (filter (\<lambda>e. length e = 3) white_space)
   \<Longrightarrow> ws_len_rev (a # b # c # s) = 3"
  apply (simp add: white_space_def del: ws_len.simps ws_len_rev.simps)
  apply (elim disjE conjE)
  apply (simp_all add: ascii_ws_def)
  done

lemma take_1: "take (length e) (map f s) = e \<Longrightarrow> length e = 1 \<Longrightarrow> \<exists>a s'. s = a # s' \<and> e = [f a]"
  by (cases s; cases e) auto

lemma take_2:
  "take (length e) (map f s) = e \<Longrightarrow> length e = 2 \<Longrightarrow> \<exists>a b s'. s = a # b # s' \<and> e = [f a, f b]"
  by (cases s; cases "tl s"; cases e; cases "tl e") auto

lemma take_3:
  "take (length e) (map f s) = e \<Longrightarrow> length e = 3
   \<Longrightarrow> \<exists>a b c s'. s = a # b # c # s' \<and> e = [f a, f b, f c]"
  by (cases s; cases "tl s"; cases "tl (tl s)"; cases e; cases "tl e"; cases "tl (tl e)") auto

lemma starts_white_ws_len:
  assumes "starts_white s"
  shows "ws_len s \<noteq> 0"
proof -
  from assms obtain e where e: "e \<in> set white_space" "take (length e) (map of_char s) = e"
    by (auto simp add: starts_white_def)
  from white_space_lengths [OF e(1)] show ?thesis
  proof (elim disjE conjE)
    assume m: "e \<in> {[9], [10], [11], [12], [13], [32]}"
    then have "length e = 1" by auto
    from take_1 [OF e(2) this] obtain a s' where s: "s = a # s'" "e = [of_char a]" by blast
    with m have "(of_char a :: nat) \<in> {9, 10, 11, 12, 13, 32}" by simp
    from ws_len_1 [OF this] s show ?thesis by simp
  next
    assume m: "e = [194, 160]"
    then have "length e = 2" by simp
    from take_2 [OF e(2) this] obtain a b s' where s: "s = a # b # s'" "e = [of_char a, of_char b]"
      by blast
    with m have "of_char a = (194::nat)" "of_char b = (160::nat)" by simp_all
    from ws_len_2 [OF this] s show ?thesis by simp
  next
    assume m: "length e = 3" "e \<in> set (filter (\<lambda>e. length e = 3) white_space)"
    from take_3 [OF e(2) m(1)] obtain a b c s'
      where s: "s = a # b # c # s'" "e = [of_char a, of_char b, of_char c]"
      by blast
    from ws_len_3 [of a b c s'] m(2) s show ?thesis by simp
  qed
qed

lemma ws_len_rev_white:
  assumes "ws_len_rev r \<noteq> 0"
  shows "map of_char (rev (take (ws_len_rev r) r)) \<in> set white_space \<and> ws_len_rev r \<le> length r"
proof (cases r)
  case Nil
  with assms show ?thesis by simp
next
  case (Cons a s')
  have via: "map of_char (rev (take k r)) \<in> set white_space \<and> k \<le> length r"
    if "ws_len (rev (take k r)) = k" "k \<noteq> 0" for k
  proof -
    let ?x = "rev (take k r)"
    from that have "ws_len ?x \<noteq> 0" by simp
    from ws_len_white [OF this] that(1)
    have in_ws: "map of_char (take k ?x) \<in> set white_space" and le: "k \<le> length ?x"
      by simp_all
    from le have "k \<le> length r" by simp
    moreover from le have "take k ?x = ?x" by simp
    ultimately show ?thesis using in_ws by simp
  qed
  show ?thesis
  proof (cases "ascii_ws a")
    case True
    then show ?thesis using ascii_ws_cases [OF True] by (auto simp add: Cons white_space_def)
  next
    case False
    show ?thesis
    proof (cases "ws_len (rev (take 2 r)) = 2")
      case True
      with False Cons have "ws_len_rev r = 2" by simp
      with via [OF True] show ?thesis by simp
    next
      case n2: False
      show ?thesis
      proof (cases "ws_len (rev (take 3 r)) = 3")
        case True
        with False n2 Cons have "ws_len_rev r = 3" by simp
        with via [OF True] show ?thesis by simp
      next
        case n3: False
        with False n2 Cons assms show ?thesis by simp
      qed
    qed
  qed
qed

lemma ends_white_ws_len_rev:
  assumes "ends_white (rev r)"
  shows "ws_len_rev r \<noteq> 0"
proof -
  from assms obtain e where e: "e \<in> set white_space" "length e \<le> length r"
    "drop (length r - length e) (map of_char (rev r)) = e"
    by (auto simp add: ends_white_def)
  from e(3) have "rev (take (length e) (map of_char r)) = e"
    using e(2) by (simp add: rev_map [symmetric] drop_rev)
  then have t: "take (length (rev e)) (map of_char r) = rev e"
    by (metis length_rev rev_rev_ident)
  from white_space_lengths [OF e(1)] show ?thesis
  proof (elim disjE conjE)
    assume m: "e \<in> {[9], [10], [11], [12], [13], [32]}"
    then have "length (rev e) = 1" by auto
    from take_1 [OF t this] obtain a s' where s: "r = a # s'" "rev e = [of_char a]" by blast
    from s(2) have "e = [of_char a]" by (metis rev_singleton_conv)
    with m have "(of_char a :: nat) \<in> {9, 10, 11, 12, 13, 32}" by simp
    from ws_len_rev_1 [OF this] s show ?thesis by simp
  next
    assume m: "e = [194, 160]"
    then have "length (rev e) = 2" by simp
    from take_2 [OF t this] obtain a b s' where s: "r = a # b # s'" "rev e = [of_char a, of_char b]"
      by blast
    with m have "of_char b = (194::nat)" "of_char a = (160::nat)" by simp_all
    from ws_len_rev_2 [OF this] s show ?thesis by simp
  next
    assume m: "length e = 3" "e \<in> set (filter (\<lambda>e. length e = 3) white_space)"
    then have "length (rev e) = 3" by simp
    from take_3 [OF t this] obtain a b c s'
      where s: "r = a # b # c # s'" "rev e = [of_char a, of_char b, of_char c]"
      by blast
    from s(2) have "e = rev [of_char a, of_char b, of_char c]" by (metis rev_rev_ident)
    then have "e = [of_char c, of_char b, of_char a]" by simp
    from ws_len_rev_3 [of c b a s'] m(2) s(1) this show ?thesis by simp
  qed
qed

lemma white_append: "white a \<Longrightarrow> white b \<Longrightarrow> white (a @ b)"
  by (induction rule: white.induct) (simp_all add: white_Cons)

lemma white_single: "map of_char e \<in> set white_space \<Longrightarrow> white e"
  using white_Cons [OF _ white_Nil] by simp

lemma strip_start:
  "\<exists>a. s = a @ strip ws_len k s \<and> white a"
proof (induction k arbitrary: s)
  case 0
  show ?case using white_Nil by simp
next
  case (Suc k)
  show ?case
  proof (cases "ws_len s = 0")
    case True
    then show ?thesis using white_Nil by simp
  next
    case False
    from ws_len_white [OF False] have w: "white (take (ws_len s) s)"
      by (simp add: white_single)
    from Suc.IH [of "drop (ws_len s) s"] obtain a
      where a: "drop (ws_len s) s = a @ strip ws_len k (drop (ws_len s) s)" "white a"
      by blast
    have "s = take (ws_len s) s @ drop (ws_len s) s" by simp
    with a(1) have "s = (take (ws_len s) s @ a) @ strip ws_len (Suc k) s"
      using False by (metis append.assoc strip.simps(2))
    moreover have "white (take (ws_len s) s @ a)" using w a(2) by (rule white_append)
    ultimately show ?thesis by blast
  qed
qed

lemma strip_end:
  "\<exists>b. r = b @ strip ws_len_rev k r \<and> white (rev b)"
proof (induction k arbitrary: r)
  case 0
  show ?case using white_Nil by simp
next
  case (Suc k)
  show ?case
  proof (cases "ws_len_rev r = 0")
    case True
    then show ?thesis using white_Nil by simp
  next
    case False
    from ws_len_rev_white [OF False] have w: "white (rev (take (ws_len_rev r) r))"
      by (simp add: white_single)
    from Suc.IH [of "drop (ws_len_rev r) r"] obtain b
      where b: "drop (ws_len_rev r) r = b @ strip ws_len_rev k (drop (ws_len_rev r) r)"
        "white (rev b)"
      by blast
    have "r = take (ws_len_rev r) r @ drop (ws_len_rev r) r" by simp
    with b(1) have "r = (take (ws_len_rev r) r @ b) @ strip ws_len_rev (Suc k) r"
      using False by (metis append.assoc strip.simps(2))
    moreover have "white (rev (take (ws_len_rev r) r @ b))"
      using white_append [OF b(2) w] by simp
    ultimately show ?thesis by blast
  qed
qed

lemma strip_done: "length s \<le> k \<Longrightarrow> len (strip len k s) = 0 \<or> strip len k s = []"
proof (induction k arbitrary: s)
  case 0
  then show ?case by simp
next
  case (Suc k)
  show ?case
  proof (cases "len s = 0")
    case True
    then show ?thesis by simp
  next
    case False
    then have "length (drop (len s) s) \<le> k" using Suc.prems by simp
    from Suc.IH [OF this] False show ?thesis by simp
  qed
qed

lemma trimStart_spec:
  "\<exists>a. s = a @ trimStart s \<and> white a" "\<not> starts_white (trimStart s)"
proof -
  show "\<exists>a. s = a @ trimStart s \<and> white a"
    unfolding trimStart_def by (rule strip_start)
  have "ws_len (trimStart s) = 0"
    using strip_done [of s "length s" ws_len] by (auto simp add: trimStart_def)
  then show "\<not> starts_white (trimStart s)"
    using starts_white_ws_len by blast
qed

lemma trimEnd_spec:
  "\<exists>b. s = trimEnd s @ b \<and> white b" "\<not> ends_white (trimEnd s)"
proof -
  from strip_end [of "rev s" "length s"] obtain b
    where b: "rev s = b @ strip ws_len_rev (length s) (rev s)" "white (rev b)"
    by blast
  from b(1) have "s = trimEnd s @ rev b"
    unfolding trimEnd_def by (metis rev_append rev_rev_ident)
  with b(2) show "\<exists>b. s = trimEnd s @ b \<and> white b" by blast
  have "ws_len_rev (rev (trimEnd s)) = 0"
    using strip_done [of "rev s" "length s" ws_len_rev] by (auto simp add: trimEnd_def)
  then show "\<not> ends_white (trimEnd s)"
    using ends_white_ws_len_rev [of "rev (trimEnd s)"] by auto
qed

lemma starts_white_append: "starts_white t \<Longrightarrow> starts_white (t @ b)"
proof -
  assume "starts_white t"
  then obtain e where e: "e \<in> set white_space" "take (length e) (map of_char t) = e"
    by (auto simp add: starts_white_def)
  from e(2) have "length e \<le> length t"
    by (metis length_map length_take min.cobounded2 min_def nat_le_linear)
  with e(2) have "take (length e) (map of_char (t @ b)) = e" by simp
  with e(1) show ?thesis by (auto simp add: starts_white_def)
qed

lemma trim_spec:
  "\<exists>a b. s = a @ trim s @ b \<and> white a \<and> white b"
  "\<not> starts_white (trim s)" "\<not> ends_white (trim s)"
proof -
  from trimStart_spec(1) [of s] obtain a where a: "s = a @ trimStart s" "white a" by blast
  from trimEnd_spec(1) [of "trimStart s"] obtain b
    where b: "trimStart s = trim s @ b" "white b"
    unfolding trim_def by blast
  from a b have "s = a @ trim s @ b" by simp
  with a(2) b(2) show "\<exists>a b. s = a @ trim s @ b \<and> white a \<and> white b" by blast
  show "\<not> ends_white (trim s)"
    unfolding trim_def by (rule trimEnd_spec(2))
  show "\<not> starts_white (trim s)"
  proof
    assume "starts_white (trim s)"
    from starts_white_append [OF this, of b] b(1) have "starts_white (trimStart s)" by simp
    with trimStart_spec(2) show False by blast
  qed
qed

text \<open>The arithmetic of \<open>ascii_lower\<close> agrees with the table of the alphabet.\<close>

lemma lower_table_keys:
  "map_of lower_table c = Some l \<Longrightarrow> 65 \<le> (of_char c :: nat) \<and> (of_char c :: nat) \<le> 90"
  by (simp add: lower_table_def split: if_splits)

lemma capital_cases:
  "65 \<le> n \<Longrightarrow> n \<le> 90 \<Longrightarrow>
   n = 65 \<or> n = 66 \<or> n = 67 \<or> n = 68 \<or> n = 69 \<or> n = 70 \<or> n = 71 \<or> n = 72 \<or> n = 73
   \<or> n = 74 \<or> n = 75 \<or> n = 76 \<or> n = 77 \<or> n = 78 \<or> n = 79 \<or> n = 80 \<or> n = 81 \<or> n = 82
   \<or> n = 83 \<or> n = 84 \<or> n = 85 \<or> n = 86 \<or> n = 87 \<or> n = 88 \<or> n = 89 \<or> n = (90::nat)"
  by arith

lemma lower_capital:
  assumes "65 \<le> n" "n \<le> 90"
  shows "ascii_lower (char_of n) = lower_letter (char_of (n::nat))"
  using capital_cases [OF assms]
  by (elim disjE; hypsubst, code_simp)

lemma ascii_lower_table: "ascii_lower c = lower_letter c"
proof (cases "65 \<le> (of_char c :: nat) \<and> (of_char c :: nat) \<le> 90")
  case True
  then show ?thesis using lower_capital [of "of_char c"] by simp
next
  case False
  then have "map_of lower_table c = None"
    using lower_table_keys [of c] by (cases "map_of lower_table c") auto
  with False show ?thesis by (auto simp add: ascii_lower_def lower_letter_def Let_def)
qed

lemma toLowerCase_ascii: "ascii s \<Longrightarrow> toLowerCase u s = map lower_letter s"
  by (simp add: toLowerCase_def ascii_lower_table)

lemma describe_Sky_Cloud:
  "describe_labels env ''Sky, Cloud''
     = ''A imagem cont'' @ [CHR 0xC3, CHR 0xA9] @ ''m: sky, cloud.''"
proof -
  have "ascii ''Sky, Cloud''"
    by (simp add: ascii_def)
  then show ?thesis
    by (simp add: describe_labels_def toLowerCase_ascii lower_letter_def lower_table_def)
qed

text \<open>\<^verbatim>\<open>JSON.stringify\<close> of the two response bodies, character by character.\<close>

lemma json_success_body:
  "json_object1 ''success'' ''true'' = ''{'' @ [CHR 0x22] @ ''success'' @ [CHR 0x22] @ '':true}''"
  by (simp add: json_object1_def json_quote_def json_escape_def)

lemma json_error_body:
  "json_object1 ''error'' (json_quote m)
     = ''{'' @ [CHR 0x22] @ ''error'' @ [CHR 0x22] @ '':'' @ [CHR 0x22]
         @ concat (map json_escape m) @ [CHR 0x22] @ ''}''"
  by (simp add: json_object1_def json_quote_def json_escape_def)

lemma of_char_quote: "(of_char c :: nat) = 34 \<longleftrightarrow> c = CHR 0x22"
proof -
  have "(of_char (CHR 0x22) :: nat) = 34" by simp
  then show ?thesis by (metis of_char_eq_iff)
qed

lemma of_char_backslash: "(of_char c :: nat) = 92 \<longleftrightarrow> c = CHR 0x5C"
proof -
  have "(of_char (CHR 0x5C) :: nat) = 92" by simp
  then show ?thesis by (metis of_char_eq_iff)
qed

lemma json_escape_plain:
  "\<forall>c \<in> set m. 32 \<le> (of_char c :: nat) \<and> c \<noteq> CHR 0x22 \<and> c \<noteq> CHR 0x5C
   \<Longrightarrow> concat (map json_escape m) = m"
proof (induction m)
  case Nil
  show ?case by simp
next
  case (Cons c m)
  then have "32 \<le> (of_char c :: nat)" "(of_char c :: nat) \<noteq> 34" "(of_char c :: nat) \<noteq> 92"
    by (simp_all add: of_char_quote of_char_backslash)
  then have "json_escape c = [c]"
    by (simp add: json_escape_def Let_def)
  with Cons show ?case by simp
qed

lemma json_escape_specials:
  "concat (map json_escape
     [CHR 0x00, CHR 0x01, CHR 0x02, CHR 0x03, CHR 0x04, CHR 0x05, CHR 0x06, CHR 0x07,
      CHR 0x08, CHR 0x09, CHR 0x0A, CHR 0x0B, CHR 0x0C, CHR 0x0D, CHR 0x0E, CHR 0x0F,
      CHR 0x10, CHR 0x11, CHR 0x12, CHR 0x13, CHR 0x14, CHR 0x15, CHR 0x16, CHR 0x17,
      CHR 0x18, CHR 0x19, CHR 0x1A, CHR 0x1B, CHR 0x1C, CHR 0x1D, CHR 0x1E, CHR 0x1F,
      CHR 0x22, CHR 0x5C])
   = [CHR 0x5C] @ ''u0000'' @ [CHR 0x5C] @ ''u0001'' @ [CHR 0x5C] @ ''u0002'' @
      [CHR 0x5C] @ ''u0003'' @ [CHR 0x5C] @ ''u0004'' @ [CHR 0x5C] @ ''u0005'' @
      [CHR 0x5C] @ ''u0006'' @ [CHR 0x5C] @ ''u0007'' @ [CHR 0x5C] @ ''b'' @
      [CHR 0x5C] @ ''t'' @ [CHR 0x5C] @ ''n'' @ [CHR 0x5C] @ ''u000b'' @
      [CHR 0x5C] @ ''f'' @ [CHR 0x5C] @ ''r'' @ [CHR 0x5C] @ ''u000e'' @
      [CHR 0x5C] @ ''u000f'' @ [CHR 0x5C] @ ''u0010'' @ [CHR 0x5C] @ ''u0011'' @
      [CHR 0x5C] @ ''u0012'' @ [CHR 0x5C] @ ''u0013'' @ [CHR 0x5C] @ ''u0014'' @
      [CHR 0x5C] @ ''u0015'' @ [CHR 0x5C] @ ''u0016'' @ [CHR 0x5C] @ ''u0017'' @
      [CHR 0x5C] @ ''u0018'' @ [CHR 0x5C] @ ''u0019'' @ [CHR 0x5C] @ ''u001a'' @
      [CHR 0x5C] @ ''u001b'' @ [CHR 0x5C] @ ''u001c'' @ [CHR 0x5C] @ ''u001d'' @
      [CHR 0x5C] @ ''u001e'' @ [CHR 0x5C] @ ''u001f'' @ [CHR 0x5C, CHR 0x22] @
      [CHR 0x5C, CHR 0x5C]"
  by code_simp

subsection \<open>Sequencing\<close>

lemma io_bind_lift [simp]:
  "io_bind (io_lift r) f w = (case r of Inl e \<Rightarrow> (Inl e, w) | Inr x \<Rightarrow> f x w)"
  by (simp add: io_bind_def io_lift_def split: sum.splits)

lemma io_bind_return [simp]: "io_bind (io_return x) f w = f x w"
  by (simp add: io_bind_def io_return_def)

lemma io_bind_remote [simp]:
  "io_bind (remote c a) f w =
     (case a (clock w) of Inl e \<Rightarrow> (Inl e, traced c w) | Inr x \<Rightarrow> f x (traced c w))"
  by (simp add: io_bind_def remote_def split: sum.splits)

lemma io_bind_assoc [simp]: "io_bind (io_bind m f) g = io_bind m (\<lambda>x. io_bind (f x) g)"
  by (rule ext) (simp add: io_bind_def split: sum.splits prod.splits)

lemma io_bind_uuid [simp]:
  "io_bind (uuid env) f w = f (uuidv4 env (clock w)) (w\<lparr>clock := Suc (clock w)\<rparr>)"
  by (simp add: io_bind_def uuid_def)

lemma io_bind_new_Date [simp]: "io_bind (new_Date env) f w = f (Date_now env (clock w)) w"
  by (simp add: io_bind_def new_Date_def)

lemma io_bind_write_fields [simp]:
  "io_bind (write_fields i fs) f w =
     f () (case posts w i of
             None \<Rightarrow> w
           | Some d \<Rightarrow> w\<lparr>posts := (posts w)(i \<mapsto> set_fields fs d)\<rparr>)"
  by (simp add: io_bind_def write_fields_def)

lemma io_bind_write_points [simp]:
  "io_bind (write_points coll ps) f w =
     f () (w\<lparr>qdrant := (qdrant w)(coll := fold upsert_point ps (qdrant w coll))\<rparr>)"
  by (simp add: io_bind_def write_points_def)

lemma io_bind_findOne [simp]:
  "io_bind (posts_findOne env i) f w =
     (case findOne env (clock w) i of
        Some e \<Rightarrow> (Inl e, traced (FindOne i) w)
      | None \<Rightarrow> f (posts w i) (traced (FindOne i) w))"
  by (simp add: io_bind_def posts_findOne_def remote_def split: option.splits)

lemmas steps = downloadImage_def posts_updateOne_def qdrant_client_upsert_def rejects_def
  streamToBufferPromise_def traced_def io_return_def Let_def

lemma clock_offsets:
  "clock w + 1 = Suc (clock w)"
  "clock w + 2 = Suc (Suc (clock w))"
  "clock w + 3 = Suc (Suc (Suc (clock w)))"
  "clock w + 4 = Suc (Suc (Suc (Suc (clock w))))"
  "clock w + 5 = Suc (Suc (Suc (Suc (Suc (clock w)))))"
  "clock w + 6 = Suc (Suc (Suc (Suc (Suc (Suc (clock w))))))"
  "clock w + 7 = Suc (Suc (Suc (Suc (Suc (Suc (Suc (clock w)))))))"
  by simp_all

subsection \<open>What a run of the loop body that does not throw has done\<close>

lemmas done_defs = bedrock_done_def bedrock_point_def bedrock_set_def bedrock_request_def
  bedrock_text_def old_done_def old_point_def old_set_def old_text_def

text \<open>
  index_with_bedrock.mjs: when every step resolves, the run ends in \<open>bedrock_done\<close>.
\<close>

lemma process_bedrock_Processed:
  assumes "decodeURIComponent (replace_plus (object_key r)) = Inr key"
    and "postId_of key = Inr postId"
    and "ObjectId env postId = Inr i"
    and "findOne env (clock w) i = None"
    and "posts w i = Some post"
    and "s3_send env (clock w + 1) (bucket_name r) key = Inr st"
    and "failure st = None"
    and "rekognition_send env (clock w + 2) (concat (chunks st)) = Inr rek"
    and "label_names rek = Inr labels"
    and "bedrock_send env (clock w + 3) (bedrock_request env post labels) = Inr emb"
    and "updateOne env (clock w + 5) i (bedrock_set env w) = None"
    and "qdrant_upsert env (clock w + 6) ''posts'' [bedrock_point env w postId post labels emb]
           = None"
  shows "process_bedrock env r w
           = (Inr Processed, bedrock_done env w r key postId i post st labels emb)"
  using assms unfolding clock_offsets done_defs
  by (simp add: process_bedrock_def steps)

text \<open>
  Conversely, a run that does not throw has skipped the record after the lookup, or
  every step has resolved, in this order and at these moments.
\<close>

lemma process_bedrock_Inr:
  assumes "process_bedrock env r w = (Inr out, w')"
  shows "\<exists>key postId i.
     decodeURIComponent (replace_plus (object_key r)) = Inr key \<and>
     postId_of key = Inr postId \<and> ObjectId env postId = Inr i \<and>
     findOne env (clock w) i = None \<and>
     (out = Skipped \<and> posts w i = None \<and> w' = traced (FindOne i) w \<or>
      out = Processed \<and>
      (\<exists>post st rek labels emb.
        posts w i = Some post \<and>
        s3_send env (clock w + 1) (bucket_name r) key = Inr st \<and> failure st = None \<and>
        rekognition_send env (clock w + 2) (concat (chunks st)) = Inr rek \<and>
        label_names rek = Inr labels \<and>
        bedrock_send env (clock w + 3) (bedrock_request env post labels) = Inr emb \<and>
        w' = bedrock_done env w r key postId i post st labels emb))"
  using assms unfolding clock_offsets done_defs
  by (auto simp add: process_bedrock_def steps split: sum.splits option.splits)

text \<open>index_old.mjs, the same way.\<close>

lemma process_old_Processed:
  assumes "decodeURIComponent (replace_plus (object_key r)) = Inr key"
    and "postId_of key = Inr postId"
    and "ObjectId env postId = Inr i"
    and "findOne env (clock w) i = None"
    and "posts w i = Some post"
    and "s3_send env (clock w + 1) (bucket_name r) key = Inr st"
    and "failure st = None"
    and "chat_create env (clock w + 2) (concat (chunks st)) = Inr choices"
    and "vision_description choices = Inr desc"
    and "embeddings_create env (clock w + 3) (old_text post desc) = Inr data"
    and "first_embedding data = Inr emb"
    and "updateOne env (clock w + 4) i (old_set desc) = None"
    and "qdrant_upsert env (clock w + 6) ''posts'' [old_point env w postId post desc emb]
           = None"
  shows "process_old env r w = (Inr Processed, old_done env w r key postId i post st desc emb)"
  using assms unfolding clock_offsets done_defs
  by (simp add: process_old_def steps)

lemma process_old_Inr:
  assumes "process_old env r w = (Inr out, w')"
  shows "\<exists>key postId i.
     decodeURIComponent (replace_plus (object_key r)) = Inr key \<and>
     postId_of key = Inr postId \<and> ObjectId env postId = Inr i \<and>
     findOne env (clock w) i = None \<and>
     (out = Skipped \<and> posts w i = None \<and> w' = traced (FindOne i) w \<or>
      out = Processed \<and>
      (\<exists>post st choices desc data emb.
        posts w i = Some post \<and>
        s3_send env (clock w + 1) (bucket_name r) key = Inr st \<and> failure st = None \<and>
        chat_create env (clock w + 2) (concat (chunks st)) = Inr choices \<and>
        vision_description choices = Inr desc \<and>
        embeddings_create env (clock w + 3) (old_text post desc) = Inr data \<and>
        first_embedding data = Inr emb \<and>
        w' = old_done env w r key postId i post st desc emb))"
  using assms unfolding clock_offsets done_defs
  by (auto simp add: process_old_def steps split: sum.splits option.splits)

subsection \<open>Early exits of the loop body\<close>

lemma process_absent:
  assumes "decodeURIComponent (replace_plus (object_key r)) = Inr key"
    and "postId_of key = Inr postId"
    and "ObjectId env postId = Inr i"
    and "findOne env (clock w) i = None"
    and "posts w i = None"
  shows "process v env r w = (Inr Skipped, traced (FindOne i) w)"
  using assms
  by (cases v) (simp_all add: process_def process_bedrock_def process_old_def io_return_def)

lemma process_short_path:
  assumes "decodeURIComponent (replace_plus (object_key r)) = Inr key"
    and "length (js_split CHR ''/'' key) < 3"
  shows "process v env r w = (Inl TypeError_split, w)"
  using assms
  by (cases v)
    (simp_all add: process_def process_bedrock_def process_old_def postId_of_def
      split: list.splits)

lemma process_bad_id:
  assumes "decodeURIComponent (replace_plus (object_key r)) = Inr key"
    and "postId_of key = Inr postId"
    and "ObjectId env postId = Inl e"
  shows "process v env r w = (Inl e, w)"
  using assms by (cases v) (simp_all add: process_def process_bedrock_def process_old_def)

subsection \<open>The loop and the handler\<close>

lemma for_records_append:
  "for_records step (xs @ ys) w =
     (case for_records step xs w of
        (Inl e, w') \<Rightarrow> (Inl e, w')
      | (Inr u, w') \<Rightarrow> for_records step ys w')"
  by (induction xs arbitrary: w)
    (auto simp: io_bind_def io_return_def split: sum.splits prod.splits)

lemma for_records_Cons_Inl:
  "step r w = (Inl e, w') \<Longrightarrow> for_records step (r # rs) w = (Inl e, w')"
  by (simp add: io_bind_def)

lemma for_records_Cons_Inr:
  "step r w = (Inr x, w') \<Longrightarrow> for_records step (r # rs) w = for_records step rs w'"
  by (simp add: io_bind_def)

lemma handler_run:
  "handler v env ev w0 =
     (case connect env (clock w0) of
        Some e \<Rightarrow>
          (\<lparr>statusCode = 500, body = json_object1 ''error'' (json_quote (message e))\<rparr>,
           mongo_close (after_connect w0))
      | None \<Rightarrow>
          (case for_records (process v env) (Records ev) (after_connect w0) of
             (Inr u, w') \<Rightarrow>
               (\<lparr>statusCode = 200, body = json_object1 ''success'' ''true''\<rparr>, mongo_close w')
           | (Inl e, w') \<Rightarrow>
               (\<lparr>statusCode = 500, body = json_object1 ''error'' (json_quote (message e))\<rparr>,
                mongo_close w')))"
  by (simp add: handler_def mongo_connect_def after_connect_def rejects_def
      split: option.splits sum.splits prod.splits)

lemma handler_abort:
  assumes "connect env (clock w0) = None"
    and "for_records (process v env) pre (after_connect w0) = (Inr u, w1)"
    and "process v env r w1 = (Inl e, w2)"
  shows "handler v env \<lparr>Records = pre @ r # rest\<rparr> w0 =
     (\<lparr>statusCode = 500, body = json_object1 ''error'' (json_quote (message e))\<rparr>,
      mongo_close w2)"
  using assms by (simp add: handler_run for_records_append io_bind_def)

lemma handler_ok:
  assumes "connect env (clock w0) = None"
    and "for_records (process v env) rs (after_connect w0) = (Inr u, w1)"
  shows "handler v env \<lparr>Records = rs\<rparr> w0 =
     (\<lparr>statusCode = 200, body = json_object1 ''success'' ''true''\<rparr>, mongo_close w1)"
  using assms by (simp add: handler_run)

subsection \<open>The index and the trace\<close>

lemma length_upsert_point:
  "length (upsert_point p ps) =
     (if point_id p \<in> point_id ` set ps then length ps else Suc (length ps))"
  by (induction ps) auto

lemma upserts_append: "upserts (xs @ ys) = upserts xs @ upserts ys"
  by (induction xs rule: upserts.induct) simp_all

subsection \<open>The combined text\<close>

text \<open>
  Claim C4. The combined text is a function of the caption and the description alone:
  an empty caption gives the description; an absent caption (the destructuring
  default makes it the empty string) gives the description, and so does a caption
  that is \<^verbatim>\<open>null\<close>; a non-empty caption gives caption, one space and description,
  trimmed: the combined text is what is left of caption, space and description when
  a run of white space is taken off each end, and it neither starts nor ends with
  white space. So \<^verbatim>\<open>"cap"\<close> and \<^verbatim>\<open>"d"\<close> give \<^verbatim>\<open>"cap d"\<close>, and so do \<^verbatim>\<open>"cap"\<close> and
  \<^verbatim>\<open>"d  "\<close>, \<^verbatim>\<open>" cap"\<close> and \<^verbatim>\<open>"d"\<close> with a line feed, U+00A0 \<^verbatim>\<open>"cap"\<close> and \<^verbatim>\<open>"d"\<close>
  U+2028; white space inside is kept; a caption of one space and a description of
  one space give the empty string.
\<close>

theorem C4_combinedText:
  "combinedText (Str []) d = d
   \<and> combinedText (default_to (Str []) Undefined) d = d
   \<and> combinedText (default_to (Str []) (field (post(''caption'' := None)) ''caption'')) d = d
   \<and> combinedText (default_to (Str []) Null) d = d
   \<and> combinedText (Str (c # cs)) d = trim ((c # cs) @ '' '' @ d)
   \<and> (\<exists>a b. (c # cs) @ '' '' @ d = a @ combinedText (Str (c # cs)) d @ b \<and> white a \<and> white b)
   \<and> \<not> starts_white (combinedText (Str (c # cs)) d)
   \<and> \<not> ends_white (combinedText (Str (c # cs)) d)
   \<and> combinedText (Str ''cap'') ''d'' = ''cap d''
   \<and> combinedText (Str ''cap'') ''d  '' = ''cap d''
   \<and> combinedText (Str '' cap'') (''d'' @ [CHR 0x0A]) = ''cap d''
   \<and> combinedText (Str ([CHR 0xC2, CHR 0xA0] @ ''cap'')) (''d'' @ [CHR 0xE2, CHR 0x80, CHR 0xA8])
       = ''cap d''
   \<and> combinedText (Str ''a  b'') ''c'' = ''a  b c''
   \<and> combinedText (Str '' '') '' '' = []"
proof -
  have general: "combinedText (Str (c # cs)) d = trim ((c # cs) @ '' '' @ d)"
    by (simp add: combinedText_def)
  have absent: "combinedText (Str []) d = d"
    "combinedText (default_to (Str []) Undefined) d = d"
    "combinedText (default_to (Str []) (field (post(''caption'' := None)) ''caption'')) d = d"
    "combinedText (default_to (Str []) Null) d = d"
    by (simp_all add: combinedText_def default_to_def field_def)
  have instances: "combinedText (Str ''cap'') ''d'' = ''cap d''"
    "combinedText (Str ''cap'') ''d  '' = ''cap d''"
    "combinedText (Str '' cap'') (''d'' @ [CHR 0x0A]) = ''cap d''"
    "combinedText (Str ([CHR 0xC2, CHR 0xA0] @ ''cap'')) (''d'' @ [CHR 0xE2, CHR 0x80, CHR 0xA8])
       = ''cap d''"
    "combinedText (Str ''a  b'') ''c'' = ''a  b c''"
    "combinedText (Str '' '') '' '' = []"
    by (simp_all add: combinedText_def trim_def trimStart_def trimEnd_def ascii_ws_def)
  show ?thesis
    unfolding general
    using trim_spec [of "(c # cs) @ '' '' @ d"] absent instances
    by (intro conjI) (rule refl | assumption)+
qed

theorem C4_combinedText_witness:
  "combinedText (Str '' sunset'') (''a  beach '' @ [CHR 0x0A]) = ''sunset a  beach''
   \<and> combinedText (Str ''sunset'') [] = ''sunset''
   \<and> combinedText (Str []) '' a beach '' = '' a beach ''"
  using C4_combinedText [of "''a  beach '' @ [CHR 0x0A]" Map.empty "CHR '' ''" "''sunset''"]
    C4_combinedText [of "[]" Map.empty "CHR ''s''" "''unset''"]
    C4_combinedText [of "'' a beach ''" Map.empty "CHR ''s''" "''unset''"]
  by (simp add: trim_def trimStart_def trimEnd_def ascii_ws_def)

subsection \<open>The description built from labels\<close>

text \<open>
  Claim C5, as stated, fails: for the labels \<^verbatim>\<open>Sky\<close> and \<^verbatim>\<open>Cloud\<close> the description of
  index_with_bedrock.mjs (line 64) is not \<^verbatim>\<open>"Image contains: sky, cloud."\<close>; the
  sentence the code writes opens in Portuguese. And not every response gets a
  description: for one without \<^verbatim>\<open>Labels\<close>, line 63 throws.
\<close>

theorem C5_counterexample:
  "label_names (DetectLabelsResponse (Some [Label (Some ''Sky''), Label (Some ''Cloud'')]))
     = Inr ''Sky, Cloud''
   \<and> describe_labels ok_env ''Sky, Cloud'' \<noteq> ''Image contains: sky, cloud.''
   \<and> label_names (DetectLabelsResponse None)
     = Inl (Error ''TypeError''
         (''Cannot read properties of undefined (reading '' @ [CHR 0x27] @ ''map'' @ [CHR 0x27]
            @ '')''))"
  by (simp add: label_names_def describe_labels_def TypeError_reading_def)

text \<open>
  Claim C5, amended. A response of the label detector that carries no \<^verbatim>\<open>Labels\<close> makes
  the record throw a \<^verbatim>\<open>TypeError\<close>, and no description is built. For every response
  that carries \<^verbatim>\<open>Labels\<close>, the names are joined by a comma and a space (a label
  without a name counting as the empty string; the joined string is every name with
  comma and space before it, less the first comma and space), and the description is
  \<^verbatim>\<open>"A imagem cont\<close>, U+00E9, \<^verbatim>\<open>m: "\<close>, then the joined names in lower case, then a full
  stop. When the names are ASCII, lower case means that each letter A to Z is
  replaced by the letter a to z of the alphabet and every other character is kept;
  otherwise it is what \<^verbatim>\<open>String.prototype.toLowerCase\<close> of the engine returns for the
  joined names. For \<^verbatim>\<open>Sky\<close> and \<^verbatim>\<open>Cloud\<close> the description ends in \<^verbatim>\<open>"sky, cloud."\<close>. It
  is a function of the detector's output.
\<close>

theorem C5_description:
  "label_names (DetectLabelsResponse None)
     = Inl (Error ''TypeError''
         (''Cannot read properties of undefined (reading '' @ [CHR 0x27] @ ''map'' @ [CHR 0x27]
            @ '')''))
   \<and> label_names (DetectLabelsResponse (Some ls))
     = Inr (join '', '' (map (\<lambda>l. case Name l of None \<Rightarrow> [] | Some n \<Rightarrow> n) ls))
   \<and> join '', '' names = drop 2 (concat (map (\<lambda>n. '', '' @ n) names))
   \<and> (list_all ascii names \<longrightarrow>
        describe_labels env (join '', '' names)
          = ''A imagem cont'' @ [CHR 0xC3, CHR 0xA9] @ ''m: ''
              @ join '', '' (map (map lower_letter) names) @ ''.'')
   \<and> (\<not> ascii labels \<longrightarrow>
        describe_labels env labels
          = ''A imagem cont'' @ [CHR 0xC3, CHR 0xA9] @ ''m: ''
              @ unicode_toLowerCase env labels @ ''.'')
   \<and> label_names (DetectLabelsResponse (Some [Label (Some ''Sky''), Label (Some ''Cloud'')]))
     = Inr ''Sky, Cloud''
   \<and> describe_labels env ''Sky, Cloud''
     = ''A imagem cont'' @ [CHR 0xC3, CHR 0xA9] @ ''m: sky, cloud.''"
proof -
  have sep: "lower_letter CHR '','' = CHR '',''" "lower_letter CHR '' '' = CHR '' ''"
    by (simp_all add: lower_letter_def lower_table_def)
  have "describe_labels env (join '', '' names)
          = ''A imagem cont'' @ [CHR 0xC3, CHR 0xA9] @ ''m: ''
              @ join '', '' (map (map lower_letter) names) @ ''.''"
    if "list_all ascii names"
    using ascii_join [OF that]
    by (simp add: describe_labels_def toLowerCase_ascii map_join sep)
  moreover have "describe_labels env labels
          = ''A imagem cont'' @ [CHR 0xC3, CHR 0xA9] @ ''m: ''
              @ unicode_toLowerCase env labels @ ''.''"
    if "\<not> ascii labels"
    using that by (simp add: describe_labels_def toLowerCase_def)
  moreover have "label_names (DetectLabelsResponse None)
     = Inl (Error ''TypeError''
         (''Cannot read properties of undefined (reading '' @ [CHR 0x27] @ ''map'' @ [CHR 0x27]
            @ '')''))"
    "label_names (DetectLabelsResponse (Some ls))
     = Inr (join '', '' (map (\<lambda>l. case Name l of None \<Rightarrow> [] | Some n \<Rightarrow> n) ls))"
    "label_names (DetectLabelsResponse (Some [Label (Some ''Sky''), Label (Some ''Cloud'')]))
     = Inr ''Sky, Cloud''"
    by (simp_all add: label_names_def TypeError_reading_def)
  moreover have "join '', '' names = drop 2 (concat (map (\<lambda>n. '', '' @ n) names))"
    using join_concat [of "'', ''" names] by (simp add: numeral_2_eq_2)
  ultimately show ?thesis
    using describe_Sky_Cloud [of env] by (intro conjI impI)
qed

theorem C5_description_witness:
  "list_all ascii [''Sky'', ''Cloud'', ''OUTDOORS 2'']
   \<and> describe_labels ok_env (join '', '' [''Sky'', ''Cloud'', ''OUTDOORS 2''])
       = ''A imagem cont'' @ [CHR 0xC3, CHR 0xA9] @ ''m: sky, cloud, outdoors 2.''
   \<and> \<not> ascii (''CR'' @ [CHR 0xC3, CHR 0x88] @ ''ME'')
   \<and> describe_labels
         (ok_env\<lparr>unicode_toLowerCase := (\<lambda>_. ''cr'' @ [CHR 0xC3, CHR 0xA8] @ ''me'')\<rparr>)
         (''CR'' @ [CHR 0xC3, CHR 0x88] @ ''ME'')
       = ''A imagem cont'' @ [CHR 0xC3, CHR 0xA9] @ ''m: cr'' @ [CHR 0xC3, CHR 0xA8] @ ''me.''
   \<and> label_names (DetectLabelsResponse (Some [Label (Some ''Sky''), Label None]))
       = Inr ''Sky, ''"
  using C5_description [where names = "[''Sky'', ''Cloud'', ''OUTDOORS 2'']" and env = ok_env
      and labels = "[]" and ls = "[Label (Some ''Sky''), Label None]"]
    C5_description [where names = "[]" and ls = "[]"
      and env = "ok_env\<lparr>unicode_toLowerCase := (\<lambda>_. ''cr'' @ [CHR 0xC3, CHR 0xA8] @ ''me'')\<rparr>"
      and labels = "''CR'' @ [CHR 0xC3, CHR 0x88] @ ''ME''"]
  by (simp add: ascii_def lower_letter_def lower_table_def)

subsection \<open>The concrete records\<close>

lemma key_p1:
  "decodeURIComponent (replace_plus (object_key rec_p1))
     = Inr ''posts/u1/0123456789abcdef01234567.jpg''"
  by (simp add: rec_p1_def decodeURIComponent_def replace_plus_def)

lemma postId_p1:
  "postId_of ''posts/u1/0123456789abcdef01234567.jpg'' = Inr ''0123456789abcdef01234567''"
  by (simp add: postId_of_def)

lemma hex24_p1: "ObjectId_hex24 ''0123456789abcdef01234567'' = Inr p1"
  by (simp add: ObjectId_hex24_def hex_digit_def p1_def ascii_lower_def)

lemma key_absent:
  "decodeURIComponent (replace_plus (object_key rec_absent))
     = Inr ''posts/u1/ffffffffffffffffffffffff.jpg''"
  by (simp add: rec_absent_def decodeURIComponent_def replace_plus_def)

lemma postId_absent:
  "postId_of ''posts/u1/ffffffffffffffffffffffff.jpg'' = Inr ''ffffffffffffffffffffffff''"
  by (simp add: postId_of_def)

lemma hex24_absent:
  "ObjectId_hex24 ''ffffffffffffffffffffffff'' = Inr (OID ''ffffffffffffffffffffffff'')"
  by (simp add: ObjectId_hex24_def hex_digit_def ascii_lower_def)

lemma key_short:
  "decodeURIComponent (replace_plus (object_key rec_short)) = Inr ''posts/p1.jpg''"
  by (simp add: rec_short_def decodeURIComponent_def replace_plus_def)

lemma key_bad_id:
  "decodeURIComponent (replace_plus (object_key rec_bad_id)) = Inr ''posts/u1/p1.jpg''"
  by (simp add: rec_bad_id_def decodeURIComponent_def replace_plus_def)

lemma postId_bad_id: "postId_of ''posts/u1/p1.jpg'' = Inr ''p1''"
  by (simp add: postId_of_def)

lemma hex24_bad_id:
  "ObjectId_hex24 ''p1'' = Inl (Error ''BSONError''
     ''input must be a 24 character hex string, 12 byte Uint8Array, or an integer'')"
  by (simp add: ObjectId_hex24_def)

lemma ok_env_sel:
  "ObjectId ok_env = ObjectId_hex24"
  "connect ok_env n = None"
  "findOne ok_env n i = None"
  "s3_send ok_env n b k = Inr (Stream [''ab'', ''cd''] None)"
  "rekognition_send ok_env n buf
     = Inr (DetectLabelsResponse (Some [Label (Some ''Sky''), Label (Some ''Cloud'')]))"
  "bedrock_send ok_env n t = Inr [1, 2]"
  "chat_create ok_env n buf = Inr [Some '' a sunset '']"
  "embeddings_create ok_env n t = Inr [[1, 2]]"
  "updateOne ok_env n i fs = None"
  "qdrant_upsert ok_env n c ps = None"
  "uuidv4 ok_env n = replicate n CHR ''u''"
  "Date_now ok_env n = n"
  "unicode_toLowerCase ok_env s = s"
  by (simp_all add: ok_env_def)

lemma failing_env_sel:
  "ObjectId failing_env = ObjectId_hex24"
  "connect failing_env n = None"
  "findOne failing_env n i = None"
  "s3_send failing_env n b k = Inr (Stream [''ab'', ''cd''] None)"
  "rekognition_send failing_env n buf
     = Inr (DetectLabelsResponse (Some [Label (Some ''Sky''), Label (Some ''Cloud'')]))"
  "bedrock_send failing_env n t = Inl embed_down"
  "chat_create failing_env n buf = Inr [Some '' a sunset '']"
  "embeddings_create failing_env n t = Inl embed_down"
  "unicode_toLowerCase failing_env s = s"
  by (simp_all add: failing_env_def ok_env_def)

lemma store1_sel:
  "posts store1 = [p1 \<mapsto> [''userId'' \<mapsto> Str ''u1'', ''caption'' \<mapsto> Str ''sunset'']]"
  "qdrant store1 = (\<lambda>_. [])"
  "calls store1 = []"
  "clock store1 = 0"
  by (simp_all add: store1_def)

lemma label_names_ok:
  "label_names (DetectLabelsResponse (Some [Label (Some ''Sky''), Label (Some ''Cloud'')]))
     = Inr ''Sky, Cloud''"
  by (simp add: label_names_def)

lemma vision_ok: "vision_description [Some '' a sunset ''] = Inr ''a sunset''"
  by (simp add: vision_description_def trim_def trimStart_def trimEnd_def ascii_ws_def)


subsection \<open>A failing backend call throws\<close>

lemma backend_fails_throws:
  assumes "backend_fails v env r w e"
  shows "fst (process v env r w) = Inl e"
proof (cases v)
  case Bedrock
  with assms show ?thesis
    unfolding backend_fails_def clock_offsets done_defs
    by (auto simp add: process_def process_bedrock_def steps)
next
  case Old
  with assms show ?thesis
    unfolding backend_fails_def clock_offsets done_defs
    by (auto simp add: process_def process_old_def steps)
qed


subsection \<open>Concrete runs\<close>

lemma run_bedrock_ok:
  assumes "posts w p1 = Some post"
  shows "process Bedrock ok_env rec_p1 w =
     (Inr Processed,
      bedrock_done ok_env w rec_p1 ''posts/u1/0123456789abcdef01234567.jpg''
        ''0123456789abcdef01234567'' p1 post (Stream [''ab'', ''cd''] None) ''Sky, Cloud'' [1, 2])"
  unfolding process_def variant.case
  by (rule process_bedrock_Processed [OF key_p1 postId_p1,
        where rek = "DetectLabelsResponse (Some [Label (Some ''Sky''), Label (Some ''Cloud'')])"])
    (simp_all add: ok_env_sel hex24_p1 label_names_ok assms)

lemma run_old_ok:
  assumes "posts w p1 = Some post"
  shows "process Old ok_env rec_p1 w =
     (Inr Processed,
      old_done ok_env w rec_p1 ''posts/u1/0123456789abcdef01234567.jpg''
        ''0123456789abcdef01234567'' p1 post (Stream [''ab'', ''cd''] None) ''a sunset'' [1, 2])"
  unfolding process_def variant.case
  by (rule process_old_Processed [OF key_p1 postId_p1,
        where choices = "[Some '' a sunset '']" and data = "[[1, 2]]"])
    (simp_all add: ok_env_sel hex24_p1 vision_ok first_embedding_def assms)

lemma oid_p1: "ObjectId ok_env ''0123456789abcdef01234567'' = Inr p1"
  by (simp add: ok_env_sel hex24_p1)

lemma post_p1:
  "posts store1 p1 = Some [''userId'' \<mapsto> Str ''u1'', ''caption'' \<mapsto> Str ''sunset'']"
  by (simp add: store1_def)

lemma embed_fails_p1: "backend_fails v failing_env rec_p1 (after_connect store1) embed_down"
  unfolding backend_fails_def
  apply (rule exI [of _ "''posts/u1/0123456789abcdef01234567.jpg''"])
  apply (rule exI [of _ "''0123456789abcdef01234567''"])
  apply (rule exI [of _ p1])
  apply (rule exI [of _ "[''userId'' \<mapsto> Str ''u1'', ''caption'' \<mapsto> Str ''sunset'']"])
  apply (rule exI [of _ "Stream [''ab'', ''cd''] None"])
  apply (cases v)
   apply (simp_all add: key_p1 postId_p1 failing_env_sel hex24_p1 store1_sel after_connect_def
      traced_def label_names_ok vision_ok)
  done

subsection \<open>A processed record\<close>

text \<open>
  A record whose path resolves to the id of a post of the record store, and a run of
  the loop body on it that does not throw.
\<close>

lemma record_processed:
  assumes "decodeURIComponent (replace_plus (object_key r)) = Inr key"
    and "postId_of key = Inr postId"
    and "ObjectId env postId = Inr i"
    and "posts w i = Some post"
    and "process v env r w = (Inr out, w')"
  shows "out = Processed
     \<and> (\<exists>post'. posts w' i = Some post' \<and> post' ''status'' = Some (Str ''processed''))
     \<and> (\<exists>p new. calls w' = calls w @ new \<and> upserts new = [(''posts'', [p])]
          \<and> map_of (payload p) ''postId'' = Some (Val (Str postId))
          \<and> qdrant w' = (qdrant w)(''posts'' := upsert_point p (qdrant w ''posts''))
          \<and> (point_id p \<notin> point_id ` set (qdrant w ''posts'')
               \<longrightarrow> length (qdrant w' ''posts'') = Suc (length (qdrant w ''posts''))))"
proof (cases v)
  case Bedrock
  with assms(5) have "process_bedrock env r w = (Inr out, w')"
    by (simp add: process_def)
  from process_bedrock_Inr [OF this] assms(1-4) show ?thesis
    by (auto simp add: done_defs set_fields_def length_upsert_point)
next
  case Old
  with assms(5) have "process_old env r w = (Inr out, w')"
    by (simp add: process_def)
  from process_old_Inr [OF this] assms(1-4) show ?thesis
    by (auto simp add: done_defs set_fields_def length_upsert_point)
qed

subsection \<open>The response to a batch\<close>

lemma handler_independent:
  assumes "connect env (clock w0) = None"
    and "for_records (process v env) pre (after_connect w0) = (Inr u, w1)"
    and "fst (process v env r w1) = Inl e"
  shows "handler v env \<lparr>Records = pre @ r # rest\<rparr> w0 = handler v env \<lparr>Records = pre @ [r]\<rparr> w0"
    and "fst (handler v env \<lparr>Records = pre @ r # rest\<rparr> w0) =
           \<lparr>statusCode = 500, body = json_object1 ''error'' (json_quote (message e))\<rparr>"
proof -
  obtain w2 where "process v env r w1 = (Inl e, w2)"
    using assms(3) by (cases "process v env r w1") simp
  then have "handler v env \<lparr>Records = pre @ r # rs\<rparr> w0 =
     (\<lparr>statusCode = 500, body = json_object1 ''error'' (json_quote (message e))\<rparr>,
      mongo_close w2)" for rs
    using handler_abort [OF assms(1,2)] by simp
  from this [of rest] this [of "[]"]
  show "handler v env \<lparr>Records = pre @ r # rest\<rparr> w0 = handler v env \<lparr>Records = pre @ [r]\<rparr> w0"
    and "fst (handler v env \<lparr>Records = pre @ r # rest\<rparr> w0) =
           \<lparr>statusCode = 500, body = json_object1 ''error'' (json_quote (message e))\<rparr>"
    by simp_all
qed

text \<open>
  Claim C2. The connection made, the records before \<open>r\<close> processed or skipped: when
  the loop body throws \<open>e\<close> at \<open>r\<close>, the handler answers 500 with the body
  \<^verbatim>\<open>{"error":"\<close>, \<open>e\<close>'s message as JSON writes it, \<^verbatim>\<open>"}\<close>, and leaves the state of
  that moment, closed; in particular when a backend call (describe, embed, persist
  or index) rejects with \<open>e\<close>, and then the response and the state, trace included,
  are those of the batch cut after \<open>r\<close>: no call is made for a later record. A
  message without control character, double quote or backslash is written as it is;
  the double quote, the backslash and each of the 32 control characters are escaped
  as listed. When no record
  throws, the handler answers 200 with \<^verbatim>\<open>{"success":true}\<close>.
\<close>

theorem C2_batch_response:
  assumes "connect env (clock w0) = None"
  shows "(for_records (process v env) pre (after_connect w0) = (Inr (), w1)
            \<and> process v env r w1 = (Inl e, w2)
          \<longrightarrow> handler v env \<lparr>Records = pre @ r # rest\<rparr> w0 =
               (\<lparr>statusCode = 500,
                 body = ''{'' @ [CHR 0x22] @ ''error'' @ [CHR 0x22] @ '':'' @ [CHR 0x22]
                          @ concat (map json_escape (message e)) @ [CHR 0x22] @ ''}''\<rparr>,
                mongo_close w2))
       \<and> (for_records (process v env) pre (after_connect w0) = (Inr (), w1)
            \<and> backend_fails v env r w1 e
          \<longrightarrow> fst (handler v env \<lparr>Records = pre @ r # rest\<rparr> w0) =
                \<lparr>statusCode = 500,
                 body = ''{'' @ [CHR 0x22] @ ''error'' @ [CHR 0x22] @ '':'' @ [CHR 0x22]
                          @ concat (map json_escape (message e)) @ [CHR 0x22] @ ''}''\<rparr>
              \<and> handler v env \<lparr>Records = pre @ r # rest\<rparr> w0 =
                handler v env \<lparr>Records = pre @ [r]\<rparr> w0)
       \<and> (for_records (process v env) rs (after_connect w0) = (Inr (), w3)
          \<longrightarrow> handler v env \<lparr>Records = rs\<rparr> w0 =
               (\<lparr>statusCode = 200,
                 body = ''{'' @ [CHR 0x22] @ ''success'' @ [CHR 0x22] @ '':true}''\<rparr>,
                mongo_close w3))
       \<and> (for_records (process v env) pre (after_connect w0) = (Inr (), w1)
            \<and> process v env r w1 = (Inl e, w2)
            \<and> (\<forall>c \<in> set (message e). 32 \<le> (of_char c :: nat) \<and> c \<noteq> CHR 0x22 \<and> c \<noteq> CHR 0x5C)
          \<longrightarrow> fst (handler v env \<lparr>Records = pre @ r # rest\<rparr> w0) =
                \<lparr>statusCode = 500,
                 body = ''{'' @ [CHR 0x22] @ ''error'' @ [CHR 0x22] @ '':'' @ [CHR 0x22]
                          @ message e @ [CHR 0x22] @ ''}''\<rparr>)
       \<and> concat (map json_escape
     [CHR 0x00, CHR 0x01, CHR 0x02, CHR 0x03, CHR 0x04, CHR 0x05, CHR 0x06, CHR 0x07,
      CHR 0x08, CHR 0x09, CHR 0x0A, CHR 0x0B, CHR 0x0C, CHR 0x0D, CHR 0x0E, CHR 0x0F,
      CHR 0x10, CHR 0x11, CHR 0x12, CHR 0x13, CHR 0x14, CHR 0x15, CHR 0x16, CHR 0x17,
      CHR 0x18, CHR 0x19, CHR 0x1A, CHR 0x1B, CHR 0x1C, CHR 0x1D, CHR 0x1E, CHR 0x1F,
      CHR 0x22, CHR 0x5C])
   = [CHR 0x5C] @ ''u0000'' @ [CHR 0x5C] @ ''u0001'' @ [CHR 0x5C] @ ''u0002'' @
      [CHR 0x5C] @ ''u0003'' @ [CHR 0x5C] @ ''u0004'' @ [CHR 0x5C] @ ''u0005'' @
      [CHR 0x5C] @ ''u0006'' @ [CHR 0x5C] @ ''u0007'' @ [CHR 0x5C] @ ''b'' @
      [CHR 0x5C] @ ''t'' @ [CHR 0x5C] @ ''n'' @ [CHR 0x5C] @ ''u000b'' @
      [CHR 0x5C] @ ''f'' @ [CHR 0x5C] @ ''r'' @ [CHR 0x5C] @ ''u000e'' @
      [CHR 0x5C] @ ''u000f'' @ [CHR 0x5C] @ ''u0010'' @ [CHR 0x5C] @ ''u0011'' @
      [CHR 0x5C] @ ''u0012'' @ [CHR 0x5C] @ ''u0013'' @ [CHR 0x5C] @ ''u0014'' @
      [CHR 0x5C] @ ''u0015'' @ [CHR 0x5C] @ ''u0016'' @ [CHR 0x5C] @ ''u0017'' @
      [CHR 0x5C] @ ''u0018'' @ [CHR 0x5C] @ ''u0019'' @ [CHR 0x5C] @ ''u001a'' @
      [CHR 0x5C] @ ''u001b'' @ [CHR 0x5C] @ ''u001c'' @ [CHR 0x5C] @ ''u001d'' @
      [CHR 0x5C] @ ''u001e'' @ [CHR 0x5C] @ ''u001f'' @ [CHR 0x5C, CHR 0x22] @
      [CHR 0x5C, CHR 0x5C]"
proof (intro conjI impI; (elim conjE)?)
  assume "for_records (process v env) pre (after_connect w0) = (Inr (), w1)"
    and "process v env r w1 = (Inl e, w2)"
  then show "handler v env \<lparr>Records = pre @ r # rest\<rparr> w0 =
     (\<lparr>statusCode = 500,
                 body = ''{'' @ [CHR 0x22] @ ''error'' @ [CHR 0x22] @ '':'' @ [CHR 0x22]
                          @ concat (map json_escape (message e)) @ [CHR 0x22] @ ''}''\<rparr>,
      mongo_close w2)"
    unfolding json_error_body [symmetric] by (rule handler_abort [OF assms])
next
  assume pre: "for_records (process v env) pre (after_connect w0) = (Inr (), w1)"
    and "backend_fails v env r w1 e"
  then have thrown: "fst (process v env r w1) = Inl e"
    by (simp add: backend_fails_throws)
  show "fst (handler v env \<lparr>Records = pre @ r # rest\<rparr> w0) =
     \<lparr>statusCode = 500,
                 body = ''{'' @ [CHR 0x22] @ ''error'' @ [CHR 0x22] @ '':'' @ [CHR 0x22]
                          @ concat (map json_escape (message e)) @ [CHR 0x22] @ ''}''\<rparr>"
    unfolding json_error_body [symmetric] by (rule handler_independent(2) [OF assms pre thrown])
  show "handler v env \<lparr>Records = pre @ r # rest\<rparr> w0 =
     handler v env \<lparr>Records = pre @ [r]\<rparr> w0"
    by (rule handler_independent(1) [OF assms pre thrown])
next
  assume "for_records (process v env) rs (after_connect w0) = (Inr (), w3)"
  then show "handler v env \<lparr>Records = rs\<rparr> w0 =
     (\<lparr>statusCode = 200,
                 body = ''{'' @ [CHR 0x22] @ ''success'' @ [CHR 0x22] @ '':true}''\<rparr>,
      mongo_close w3)"
    unfolding json_success_body [symmetric] by (rule handler_ok [OF assms])
next
  assume pre: "for_records (process v env) pre (after_connect w0) = (Inr (), w1)"
    and thrown: "process v env r w1 = (Inl e, w2)"
    and plain: "\<forall>c \<in> set (message e). 32 \<le> (of_char c :: nat) \<and> c \<noteq> CHR 0x22 \<and> c \<noteq> CHR 0x5C"
  from handler_abort [OF assms pre thrown, of rest]
  show "fst (handler v env \<lparr>Records = pre @ r # rest\<rparr> w0) =
     \<lparr>statusCode = 500,
                 body = ''{'' @ [CHR 0x22] @ ''error'' @ [CHR 0x22] @ '':'' @ [CHR 0x22]
                          @ message e @ [CHR 0x22] @ ''}''\<rparr>"
    by (simp add: json_error_body json_escape_plain [OF plain])
next
  show "concat (map json_escape
     [CHR 0x00, CHR 0x01, CHR 0x02, CHR 0x03, CHR 0x04, CHR 0x05, CHR 0x06, CHR 0x07,
      CHR 0x08, CHR 0x09, CHR 0x0A, CHR 0x0B, CHR 0x0C, CHR 0x0D, CHR 0x0E, CHR 0x0F,
      CHR 0x10, CHR 0x11, CHR 0x12, CHR 0x13, CHR 0x14, CHR 0x15, CHR 0x16, CHR 0x17,
      CHR 0x18, CHR 0x19, CHR 0x1A, CHR 0x1B, CHR 0x1C, CHR 0x1D, CHR 0x1E, CHR 0x1F,
      CHR 0x22, CHR 0x5C])
   = [CHR 0x5C] @ ''u0000'' @ [CHR 0x5C] @ ''u0001'' @ [CHR 0x5C] @ ''u0002'' @
      [CHR 0x5C] @ ''u0003'' @ [CHR 0x5C] @ ''u0004'' @ [CHR 0x5C] @ ''u0005'' @
      [CHR 0x5C] @ ''u0006'' @ [CHR 0x5C] @ ''u0007'' @ [CHR 0x5C] @ ''b'' @
      [CHR 0x5C] @ ''t'' @ [CHR 0x5C] @ ''n'' @ [CHR 0x5C] @ ''u000b'' @
      [CHR 0x5C] @ ''f'' @ [CHR 0x5C] @ ''r'' @ [CHR 0x5C] @ ''u000e'' @
      [CHR 0x5C] @ ''u000f'' @ [CHR 0x5C] @ ''u0010'' @ [CHR 0x5C] @ ''u0011'' @
      [CHR 0x5C] @ ''u0012'' @ [CHR 0x5C] @ ''u0013'' @ [CHR 0x5C] @ ''u0014'' @
      [CHR 0x5C] @ ''u0015'' @ [CHR 0x5C] @ ''u0016'' @ [CHR 0x5C] @ ''u0017'' @
      [CHR 0x5C] @ ''u0018'' @ [CHR 0x5C] @ ''u0019'' @ [CHR 0x5C] @ ''u001a'' @
      [CHR 0x5C] @ ''u001b'' @ [CHR 0x5C] @ ''u001c'' @ [CHR 0x5C] @ ''u001d'' @
      [CHR 0x5C] @ ''u001e'' @ [CHR 0x5C] @ ''u001f'' @ [CHR 0x5C, CHR 0x22] @
      [CHR 0x5C, CHR 0x5C]"
    by (rule json_escape_specials)
qed

lemma loop_ok_p1:
  "for_records (process Bedrock ok_env) [rec_p1] (after_connect store1) =
     (Inr (),
      bedrock_done ok_env (after_connect store1) rec_p1 ''posts/u1/0123456789abcdef01234567.jpg''
        ''0123456789abcdef01234567'' p1 [''userId'' \<mapsto> Str ''u1'', ''caption'' \<mapsto> Str ''sunset'']
        (Stream [''ab'', ''cd''] None) ''Sky, Cloud'' [1, 2])"
  by (simp add: io_bind_def io_return_def run_bedrock_ok after_connect_def traced_def store1_sel)

lemma bucket_p1: "bucket_name rec_p1 = ''uploads''"
  by (simp add: rec_p1_def)

lemma run_bedrock_embed_down:
  assumes "posts w p1 = Some post"
  shows "process Bedrock failing_env rec_p1 w =
     (Inl embed_down,
      w\<lparr>calls := calls w @
           [FindOne p1, GetObject ''uploads'' ''posts/u1/0123456789abcdef01234567.jpg'',
            DetectLabels ''abcd'' 10 75,
            InvokeModel ''amazon.titan-embed-text-v2:0''
              (bedrock_request failing_env post ''Sky, Cloud'')],
         clock := clock w + 4\<rparr>)"
  unfolding clock_offsets
  by (simp add: process_def process_bedrock_def steps key_p1 postId_p1 failing_env_sel hex24_p1
      label_names_ok done_defs bucket_p1 assms)

lemma request_p1:
  "bedrock_request env [''userId'' \<mapsto> Str ''u1'', ''caption'' \<mapsto> Str ''sunset''] ''Sky, Cloud''
     = ''{'' @ [CHR 0x22] @ ''inputText'' @ [CHR 0x22] @ '':'' @ [CHR 0x22]
         @ ''sunset A imagem cont'' @ [CHR 0xC3, CHR 0xA9] @ ''m: sky, cloud.''
         @ [CHR 0x22] @ ''}''"
  by (simp add: bedrock_request_def bedrock_text_def describe_Sky_Cloud combinedText_def
      default_to_def field_def trim_def trimStart_def trimEnd_def
      ascii_ws_def json_object1_def json_quote_def json_escape_def)

theorem C2_batch_response_witness:
  "handler Bedrock failing_env \<lparr>Records = [rec_p1, rec_absent]\<rparr> store1 =
       (\<lparr>statusCode = 500,
          body = ''{'' @ [CHR 0x22] @ ''error'' @ [CHR 0x22] @ '':'' @ [CHR 0x22]
                   @ ''Too many requests'' @ [CHR 0x22] @ ''}''\<rparr>,
        store1\<lparr>calls :=
           [MongoConnect, FindOne p1,
            GetObject ''uploads'' ''posts/u1/0123456789abcdef01234567.jpg'',
            DetectLabels ''abcd'' 10 75,
            InvokeModel ''amazon.titan-embed-text-v2:0''
              (''{'' @ [CHR 0x22] @ ''inputText'' @ [CHR 0x22] @ '':'' @ [CHR 0x22]
                 @ ''sunset A imagem cont'' @ [CHR 0xC3, CHR 0xA9] @ ''m: sky, cloud.''
                 @ [CHR 0x22] @ ''}''),
            MongoClose],
          clock := 6\<rparr>)
   \<and> handler Bedrock failing_env \<lparr>Records = [rec_p1, rec_absent]\<rparr> store1 =
       handler Bedrock failing_env \<lparr>Records = [rec_p1]\<rparr> store1
   \<and> fst (handler Bedrock ok_env \<lparr>Records = [rec_p1]\<rparr> store1) =
       \<lparr>statusCode = 200,
        body = ''{'' @ [CHR 0x22] @ ''success'' @ [CHR 0x22] @ '':true}''\<rparr>"
proof -
  have down: "connect failing_env (clock store1) = None"
    and up: "connect ok_env (clock store1) = None"
    by (simp_all add: failing_env_sel ok_env_sel)
  have none: "for_records (process Bedrock failing_env) [] (after_connect store1) =
      (Inr (), after_connect store1)"
    by (simp add: io_return_def)
  have plain: "\<forall>c \<in> set (message embed_down).
      32 \<le> (of_char c :: nat) \<and> c \<noteq> CHR 0x22 \<and> c \<noteq> CHR 0x5C"
    by (simp add: embed_down_def)
  note failing = C2_batch_response [OF down, where v = Bedrock and pre = "[]"
      and ?w1.0 = "after_connect store1" and r = rec_p1 and e = embed_down
      and rest = "[rec_absent]"]
  have "posts (after_connect store1) p1 =
      Some [''userId'' \<mapsto> Str ''u1'', ''caption'' \<mapsto> Str ''sunset'']"
    by (simp add: after_connect_def traced_def store1_sel)
  note thrown = run_bedrock_embed_down [OF this]
  from failing [THEN conjunct1, rule_format, OF conjI [OF none thrown]]
  have state: "snd (handler Bedrock failing_env \<lparr>Records = [rec_p1, rec_absent]\<rparr> store1) =
        store1\<lparr>calls :=
           [MongoConnect, FindOne p1,
            GetObject ''uploads'' ''posts/u1/0123456789abcdef01234567.jpg'',
            DetectLabels ''abcd'' 10 75,
            InvokeModel ''amazon.titan-embed-text-v2:0''
              (''{'' @ [CHR 0x22] @ ''inputText'' @ [CHR 0x22] @ '':'' @ [CHR 0x22]
                 @ ''sunset A imagem cont'' @ [CHR 0xC3, CHR 0xA9] @ ''m: sky, cloud.''
                 @ [CHR 0x22] @ ''}''),
            MongoClose],
          clock := 6\<rparr>"
    by (simp add: request_p1 mongo_close_def after_connect_def traced_def store1_def)
  from failing [THEN conjunct2, THEN conjunct2, THEN conjunct2, THEN conjunct1, rule_format,
      OF conjI [OF none conjI [OF thrown plain]]]
  have answer: "fst (handler Bedrock failing_env \<lparr>Records = [rec_p1, rec_absent]\<rparr> store1) =
        \<lparr>statusCode = 500,
          body = ''{'' @ [CHR 0x22] @ ''error'' @ [CHR 0x22] @ '':'' @ [CHR 0x22]
                   @ ''Too many requests'' @ [CHR 0x22] @ ''}''\<rparr>"
    by (simp add: embed_down_def)
  have trace: "handler Bedrock failing_env \<lparr>Records = [rec_p1, rec_absent]\<rparr> store1 =
       (\<lparr>statusCode = 500,
          body = ''{'' @ [CHR 0x22] @ ''error'' @ [CHR 0x22] @ '':'' @ [CHR 0x22]
                   @ ''Too many requests'' @ [CHR 0x22] @ ''}''\<rparr>,
        store1\<lparr>calls :=
           [MongoConnect, FindOne p1,
            GetObject ''uploads'' ''posts/u1/0123456789abcdef01234567.jpg'',
            DetectLabels ''abcd'' 10 75,
            InvokeModel ''amazon.titan-embed-text-v2:0''
              (''{'' @ [CHR 0x22] @ ''inputText'' @ [CHR 0x22] @ '':'' @ [CHR 0x22]
                 @ ''sunset A imagem cont'' @ [CHR 0xC3, CHR 0xA9] @ ''m: sky, cloud.''
                 @ [CHR 0x22] @ ''}''),
            MongoClose],
          clock := 6\<rparr>)"
    using answer state by (simp add: prod_eq_iff)
  have cut: "handler Bedrock failing_env \<lparr>Records = [rec_p1, rec_absent]\<rparr> store1 =
       handler Bedrock failing_env \<lparr>Records = [rec_p1]\<rparr> store1"
    using failing [THEN conjunct2, THEN conjunct1, rule_format,
      OF conjI [OF none embed_fails_p1], THEN conjunct2]
    unfolding append_Nil .
  from C2_batch_response [OF up, where v = Bedrock and rs = "[rec_p1]",
      THEN conjunct2, THEN conjunct2, THEN conjunct1] loop_ok_p1
  have "fst (handler Bedrock ok_env \<lparr>Records = [rec_p1]\<rparr> store1) =
       \<lparr>statusCode = 200,
        body = ''{'' @ [CHR 0x22] @ ''success'' @ [CHR 0x22] @ '':true}''\<rparr>"
    by simp
  with trace cut show ?thesis
    by (intro conjI)
qed

subsection \<open>A record whose post is absent\<close>

text \<open>
  Claim C3. A record whose resolved id is not in the record store, the lookup having
  resolved: the loop body makes the lookup and nothing else (no fetch, describe,
  embed, update or upsert is traced; the store and the index are as before), it does
  not throw, and the loop goes on with the next record from that state; a batch of
  this record alone is answered 200.
\<close>

theorem C3_absent_post_skipped:
  assumes "decodeURIComponent (replace_plus (object_key r)) = Inr key"
    and "postId_of key = Inr postId"
    and "ObjectId env postId = Inr i"
    and "findOne env (clock w) i = None"
    and "posts w i = None"
  shows "process v env r w = (Inr Skipped, traced (FindOne i) w)
     \<and> calls (traced (FindOne i) w) = calls w @ [FindOne i]
     \<and> posts (traced (FindOne i) w) = posts w
     \<and> qdrant (traced (FindOne i) w) = qdrant w
     \<and> for_records (process v env) (r # rs) w
         = for_records (process v env) rs (traced (FindOne i) w)
     \<and> (connect env (clock w0) = None \<and> w = after_connect w0
          \<longrightarrow> handler v env \<lparr>Records = [r]\<rparr> w0 =
               (\<lparr>statusCode = 200, body = json_object1 ''success'' ''true''\<rparr>,
                mongo_close (traced (FindOne i) w)))"
proof -
  have skip: "process v env r w = (Inr Skipped, traced (FindOne i) w)"
    by (rule process_absent [OF assms])
  then have loop: "for_records (process v env) (r # rs) w
      = for_records (process v env) rs (traced (FindOne i) w)" for rs
    by (rule for_records_Cons_Inr)
  have "handler v env \<lparr>Records = [r]\<rparr> w0 =
      (\<lparr>statusCode = 200, body = json_object1 ''success'' ''true''\<rparr>,
       mongo_close (traced (FindOne i) w))"
    if "connect env (clock w0) = None" and "w = after_connect w0"
    using that loop [of "[]"] by (simp add: handler_run io_return_def)
  with skip loop show ?thesis
    by (simp add: traced_def)
qed

lemma oid_absent: "ObjectId ok_env ''ffffffffffffffffffffffff'' = Inr (OID ''ffffffffffffffffffffffff'')"
  by (simp add: ok_env_sel hex24_absent)

theorem C3_absent_post_skipped_witness:
  "process Old ok_env rec_absent (after_connect store1)
       = (Inr Skipped, traced (FindOne (OID ''ffffffffffffffffffffffff'')) (after_connect store1))
   \<and> calls (traced (FindOne (OID ''ffffffffffffffffffffffff'')) (after_connect store1))
       = [MongoConnect, FindOne (OID ''ffffffffffffffffffffffff'')]
   \<and> for_records (process Old ok_env) [rec_absent, rec_p1] (after_connect store1)
       = for_records (process Old ok_env) [rec_p1]
           (traced (FindOne (OID ''ffffffffffffffffffffffff'')) (after_connect store1))
   \<and> handler Old ok_env \<lparr>Records = [rec_absent]\<rparr> store1 =
       (\<lparr>statusCode = 200, body = json_object1 ''success'' ''true''\<rparr>,
        mongo_close (traced (FindOne (OID ''ffffffffffffffffffffffff'')) (after_connect store1)))"
  using C3_absent_post_skipped [OF key_absent postId_absent oid_absent,
      where w = "after_connect store1" and v = Old and rs = "[rec_p1]" and ?w0.0 = store1]
  by (simp add: ok_env_sel store1_sel after_connect_def traced_def p1_def)

subsection \<open>A path with fewer than three segments\<close>

text \<open>
  Claim C9. A record whose decoded path has fewer than three segments: the loop body
  throws while it resolves the id (the \<^verbatim>\<open>TypeError\<close> of \<^verbatim>\<open>undefined.split\<close>, the
  decoding error of the path convention) and leaves the state as it was, so no
  lookup, fetch, describe, embed, update or upsert has been made for the record; the
  loop stops there and the handler answers 500 with that error's message.
\<close>

theorem C9_short_path_fails_first:
  assumes "decodeURIComponent (replace_plus (object_key r)) = Inr key"
    and "length (js_split CHR ''/'' key) < 3"
  shows "process v env r w = (Inl TypeError_split, w)
     \<and> for_records (process v env) (r # rs) w = (Inl TypeError_split, w)
     \<and> (connect env (clock w0) = None
          \<longrightarrow> handler v env \<lparr>Records = r # rs\<rparr> w0 =
               (\<lparr>statusCode = 500,
                 body = json_object1 ''error'' (json_quote (message TypeError_split))\<rparr>,
                mongo_close (after_connect w0)))"
proof -
  have thrown: "process v env r w = (Inl TypeError_split, w)" for w
    by (rule process_short_path [OF assms])
  have "handler v env \<lparr>Records = r # rs\<rparr> w0 =
      (\<lparr>statusCode = 500, body = json_object1 ''error'' (json_quote (message TypeError_split))\<rparr>,
       mongo_close (after_connect w0))"
    if "connect env (clock w0) = None"
    using handler_abort [OF that, of v "[]" "()" "after_connect w0" r TypeError_split
        "after_connect w0" rs] thrown
    by (simp add: io_return_def)
  with thrown [of w] for_records_Cons_Inl [of "process v env" r w, OF thrown] show ?thesis
    by simp
qed

lemma segments_short: "length (js_split CHR ''/'' ''posts/p1.jpg'') < 3"
  by simp

theorem C9_short_path_fails_first_witness:
  "process Bedrock ok_env rec_short store1 = (Inl TypeError_split, store1)
   \<and> for_records (process Bedrock ok_env) [rec_short, rec_p1] store1
       = (Inl TypeError_split, store1)
   \<and> handler Bedrock ok_env \<lparr>Records = [rec_short, rec_p1]\<rparr> store1 =
       (\<lparr>statusCode = 500,
         body = json_object1 ''error'' (json_quote (message TypeError_split))\<rparr>,
        mongo_close (after_connect store1))"
  using C9_short_path_fails_first [OF key_short segments_short,
      of Bedrock ok_env store1 "[rec_p1]" store1]
  by (simp add: ok_env_sel)

subsection \<open>An id that is no object id\<close>

text \<open>
  Claim C10. A record whose third path segment gives an id that the driver's
  \<^verbatim>\<open>ObjectId\<close> constructor refuses: the constructor throws before the lookup is sent,
  the loop body throws that error and leaves the state as it was (the record is not
  skipped as not found), and the handler answers 500 with the error's message,
  whatever records come after it.
\<close>

theorem C10_invalid_id_aborts:
  assumes "decodeURIComponent (replace_plus (object_key r)) = Inr key"
    and "postId_of key = Inr postId"
    and "ObjectId env postId = Inl e"
  shows "process v env r w = (Inl e, w)
     \<and> (connect env (clock w0) = None
          \<and> for_records (process v env) pre (after_connect w0) = (Inr (), w1)
          \<longrightarrow> handler v env \<lparr>Records = pre @ r # rest\<rparr> w0 =
               (\<lparr>statusCode = 500, body = json_object1 ''error'' (json_quote (message e))\<rparr>,
                mongo_close w1))"
  using process_bad_id [OF assms] handler_abort [of env w0 v pre "()" w1 r e w1 rest]
  by simp

lemma oid_bad_id:
  "ObjectId ok_env ''p1'' = Inl (Error ''BSONError''
     ''input must be a 24 character hex string, 12 byte Uint8Array, or an integer'')"
  by (simp add: ok_env_sel hex24_bad_id)

theorem C10_invalid_id_aborts_witness:
  "process Old ok_env rec_bad_id store1 =
       (Inl (Error ''BSONError''
          ''input must be a 24 character hex string, 12 byte Uint8Array, or an integer''), store1)
   \<and> handler Old ok_env \<lparr>Records = [rec_bad_id, rec_p1]\<rparr> store1 =
       (\<lparr>statusCode = 500, body = json_object1 ''error'' (json_quote
          ''input must be a 24 character hex string, 12 byte Uint8Array, or an integer'')\<rparr>,
        mongo_close (after_connect store1))"
  using C10_invalid_id_aborts [OF key_bad_id postId_bad_id oid_bad_id,
      of Old store1 store1 "[]" "after_connect store1" "[rec_p1]"]
  by (simp add: ok_env_sel io_return_def)

subsection \<open>The store across a run\<close>

lemma same_but_refl: "same_but fs ps ps"
  by (simp add: same_but_def split: option.splits)

lemma same_but_None: "same_but fs a b \<Longrightarrow> a j = None \<Longrightarrow> b j = None"
  unfolding same_but_def by (drule spec [of _ j]) simp

lemma same_but_Some:
  "same_but fs a b \<Longrightarrow> a j = Some d
     \<Longrightarrow> \<exists>d'. b j = Some d' \<and> (\<forall>f. f \<notin> set fs \<longrightarrow> d' f = d f)"
  unfolding same_but_def by (drule spec [of _ j]) simp

lemma same_but_trans:
  assumes "same_but fs a b" and "same_but fs b c"
  shows "same_but fs a c"
  unfolding same_but_def
proof
  fix j
  show "case a j of None \<Rightarrow> c j = None
        | Some d \<Rightarrow> \<exists>d'. c j = Some d' \<and> (\<forall>f. f \<notin> set fs \<longrightarrow> d' f = d f)"
  proof (cases "a j")
    case None
    then have "c j = None"
      using assms by (blast dest: same_but_None)
    with None show ?thesis
      by simp
  next
    case (Some d)
    from same_but_Some [OF assms(1) Some]
    obtain d1 where b: "b j = Some d1" "\<forall>f. f \<notin> set fs \<longrightarrow> d1 f = d f"
      by blast
    from same_but_Some [OF assms(2) b(1)]
    obtain d2 where "c j = Some d2" "\<forall>f. f \<notin> set fs \<longrightarrow> d2 f = d1 f"
      by blast
    with Some b show ?thesis
      by simp
  qed
qed

lemma set_fields_other: "f \<notin> fst ` set upd \<Longrightarrow> set_fields upd d f = d f"
  unfolding set_fields_def by (induction upd arbitrary: d) auto

lemma same_but_set_fields:
  assumes "ps i = Some d" and "fst ` set upd \<subseteq> set fs"
  shows "same_but fs ps (ps(i \<mapsto> set_fields upd d))"
proof -
  have "set_fields upd d f = d f" if "f \<notin> set fs" for f
    using that assms(2) by (intro set_fields_other) blast
  with assms(1) show ?thesis
    by (simp add: same_but_def split: option.splits)
qed

lemma preserves_bind:
  assumes "preserves fs m" and "\<And>x. preserves fs (f x)"
  shows "preserves fs (io_bind m f)"
  unfolding preserves_def
proof
  fix w
  obtain x w1 where m: "m w = (x, w1)"
    by (cases "m w")
  from assms(1) have first: "same_but fs (posts w) (posts w1)"
    by (auto simp: preserves_def m dest: spec [of _ w])
  show "same_but fs (posts w) (posts (snd (io_bind m f w)))"
  proof (cases x)
    case (Inl e)
    with m first show ?thesis
      by (simp add: io_bind_def)
  next
    case (Inr y)
    from assms(2) [of y] have "same_but fs (posts w1) (posts (snd (f y w1)))"
      by (simp add: preserves_def)
    with first m Inr show ?thesis
      by (auto simp: io_bind_def intro: same_but_trans)
  qed
qed

lemma preserves_simple:
  "preserves fs (io_return x)"
  "preserves fs (io_lift r)"
  "preserves fs (remote c a)"
  "preserves fs (uuid env)"
  "preserves fs (new_Date env)"
  "preserves fs (posts_findOne env i)"
  "preserves fs (write_points coll ps)"
  by (simp_all add: preserves_def io_return_def io_lift_def remote_def uuid_def new_Date_def
      posts_findOne_def write_points_def traced_def same_but_refl)

lemma preserves_write_fields:
  "fst ` set upd \<subseteq> set fs \<Longrightarrow> preserves fs (write_fields i upd)"
  by (auto simp add: preserves_def write_fields_def same_but_refl same_but_set_fields
      split: option.splits)

lemma preserves_case_option:
  assumes "preserves fs a" and "\<And>x. preserves fs (b x)"
  shows "preserves fs (case v of None \<Rightarrow> a | Some x \<Rightarrow> b x)"
  using assms by (cases v) simp_all

lemmas preserves_intros = preserves_bind preserves_simple preserves_write_fields
  preserves_case_option

lemma preserves_process: "preserves (enrichment_fields v) (process v env r)"
proof (cases v)
  case Bedrock
  then show ?thesis
    unfolding process_def process_bedrock_def downloadImage_def posts_updateOne_def
      qdrant_client_upsert_def Let_def
    by (auto intro!: preserves_intros)
next
  case Old
  then show ?thesis
    unfolding process_def process_old_def downloadImage_def posts_updateOne_def
      qdrant_client_upsert_def Let_def
    by (auto intro!: preserves_intros)
qed

lemma preserves_for_records: "preserves (enrichment_fields v) (for_records (process v env) rs)"
  by (induction rs) (auto intro!: preserves_intros preserves_process)

lemma handler_frame: "same_but (enrichment_fields v) (posts w0) (posts (snd (handler v env ev w0)))"
proof -
  have "preserves (enrichment_fields v)
     (io_bind (mongo_connect env) (\<lambda>_. for_records (process v env) (Records ev)))"
    unfolding mongo_connect_def by (intro preserves_intros preserves_for_records)
  then have "same_but (enrichment_fields v) (posts w0)
     (posts (snd (io_bind (mongo_connect env) (\<lambda>_. for_records (process v env) (Records ev)) w0)))"
    by (simp add: preserves_def)
  then show ?thesis
    by (auto simp add: handler_def mongo_close_def traced_def split: prod.splits sum.splits)
qed

subsection \<open>The upserts of a run\<close>

lemma process_bedrock_upserts:
  assumes "process_bedrock env r w = (res, w')"
  shows "take (length (calls w)) (calls w') = calls w \<and>
     (upserts (drop (length (calls w)) (calls w')) = [] \<or>
      (\<exists>postId post labels emb.
         bedrock_send env (clock w + 3) (bedrock_request env post labels) = Inr emb \<and>
         upserts (drop (length (calls w)) (calls w'))
           = [(''posts'', [bedrock_point env w postId post labels emb])]))"
  using assms unfolding clock_offsets done_defs
  by (auto simp add: process_bedrock_def steps split: sum.splits option.splits) blast+

lemma process_old_upserts:
  assumes "process_old env r w = (res, w')"
  shows "take (length (calls w)) (calls w') = calls w \<and>
     (upserts (drop (length (calls w)) (calls w')) = [] \<or>
      (\<exists>postId post desc data emb.
         embeddings_create env (clock w + 3) (old_text post desc) = Inr data \<and>
         first_embedding data = Inr emb \<and>
         upserts (drop (length (calls w)) (calls w'))
           = [(''posts'', [old_point env w postId post desc emb])]))"
  using assms unfolding clock_offsets done_defs
  by (auto simp add: process_old_def steps split: sum.splits option.splits) blast+


lemma take_drop_calls:
  "take (length (calls w)) (calls w') = calls w
     \<Longrightarrow> calls w' = calls w @ drop (length (calls w)) (calls w')"
  by (metis append_take_drop_id)

text \<open>
  Claim C6, as stated, fails: the point that index_old.mjs upserts carries a fifth
  payload field, \<^verbatim>\<open>createdAt\<close>, and the description is under \<^verbatim>\<open>imageDescription\<close>, so the
  payload's fields are not postId, userId, caption and description.
\<close>

theorem C6_counterexample:
  "\<exists>w' p. process Old ok_env rec_p1 store1 = (Inr Processed, w')
     \<and> upserts (calls w') = [(''posts'', [p])]
     \<and> map fst (payload p) = [''postId'', ''userId'', ''caption'', ''imageDescription'', ''createdAt'']
     \<and> ''createdAt'' \<in> set (map fst (payload p))
     \<and> ''description'' \<notin> set (map fst (payload p))"
  by (simp add: run_old_ok [OF post_p1] done_defs store1_sel)

text \<open>
  Claim C6, amended. Every upsert that a run of the loop body makes, whether the run
  returns or throws, goes to the collection \<^verbatim>\<open>posts\<close> and carries exactly one point: its
  id is the \<^verbatim>\<open>uuidv4\<close> drawn in that run, its payload has exactly the fields postId,
  userId, caption and imageDescription in index_with_bedrock.mjs, and these and
  createdAt in index_old.mjs, and its vector is what the embedding backend returned
  for the combined text of the payload's caption and description.
\<close>

theorem C6_upserted_point:
  assumes "process v env r w = (res, w')"
  shows "\<exists>new. calls w' = calls w @ new \<and>
     (\<forall>(coll, ps) \<in> set (upserts new).
        coll = ''posts'' \<and>
        (\<exists>p c d. ps = [p]
           \<and> point_id p = uuidv4 env (clock w + (case v of Bedrock \<Rightarrow> 4 | Old \<Rightarrow> 5))
           \<and> map fst (payload p) = payload_fields v
           \<and> map_of (payload p) ''caption'' = Some (Val c)
           \<and> map_of (payload p) ''imageDescription'' = Some (Val (Str d))
           \<and> (case v of
                Bedrock \<Rightarrow>
                  bedrock_send env (clock w + 3)
                    (json_object1 ''inputText'' (json_quote (combinedText c d)))
                    = Inr (vector p)
              | Old \<Rightarrow>
                  (\<exists>data. embeddings_create env (clock w + 3) (combinedText c d) = Inr data
                     \<and> first_embedding data = Inr (vector p)))))"
proof -
  define new where "new = drop (length (calls w)) (calls w')"
  have "calls w' = calls w @ new \<and>
     (upserts new = [] \<or>
      (\<exists>postId post d emb.
         (case v of
            Bedrock \<Rightarrow>
              bedrock_send env (clock w + 3) (bedrock_request env post d) = Inr emb \<and>
              upserts new = [(''posts'', [bedrock_point env w postId post d emb])]
          | Old \<Rightarrow>
              (\<exists>data. embeddings_create env (clock w + 3) (old_text post d) = Inr data \<and>
                 first_embedding data = Inr emb) \<and>
              upserts new = [(''posts'', [old_point env w postId post d emb])])))"
  proof (cases v)
    case Bedrock
    with assms have "process_bedrock env r w = (res, w')"
      by (simp add: process_def)
    from process_bedrock_upserts [OF this] have "calls w' = calls w @ new"
      and "upserts new = [] \<or>
        (\<exists>postId post labels emb.
           bedrock_send env (clock w + 3) (bedrock_request env post labels) = Inr emb \<and>
           upserts new = [(''posts'', [bedrock_point env w postId post labels emb])])"
      unfolding new_def by (blast intro: take_drop_calls)+
    with Bedrock show ?thesis
      by simp
  next
    case Old
    with assms have "process_old env r w = (res, w')"
      by (simp add: process_def)
    from process_old_upserts [OF this] have "calls w' = calls w @ new"
      and "upserts new = [] \<or>
        (\<exists>postId post desc data emb.
           embeddings_create env (clock w + 3) (old_text post desc) = Inr data \<and>
           first_embedding data = Inr emb \<and>
           upserts new = [(''posts'', [old_point env w postId post desc emb])])"
      unfolding new_def by (blast intro: take_drop_calls)+
    with Old show ?thesis
      by simp blast
  qed
  then show ?thesis
    by (intro exI [of _ new]) (cases v; auto simp add: done_defs)
qed


theorem C6_upserted_point_witness:
  "\<exists>w' p c d. process Bedrock ok_env rec_p1 store1 = (Inr Processed, w')
     \<and> upserts (calls w') = [(''posts'', [p])]
     \<and> point_id p = uuidv4 ok_env 4
     \<and> map fst (payload p) = [''postId'', ''userId'', ''caption'', ''imageDescription'']
     \<and> map_of (payload p) ''caption'' = Some (Val c)
     \<and> map_of (payload p) ''imageDescription'' = Some (Val (Str d))
     \<and> bedrock_send ok_env 3 (json_object1 ''inputText'' (json_quote (combinedText c d)))
         = Inr (vector p)"
proof -
  let ?w = "bedrock_done ok_env store1 rec_p1 ''posts/u1/0123456789abcdef01234567.jpg''
      ''0123456789abcdef01234567'' p1 [''userId'' \<mapsto> Str ''u1'', ''caption'' \<mapsto> Str ''sunset'']
      (Stream [''ab'', ''cd''] None) ''Sky, Cloud'' [1, 2]"
  let ?p = "bedrock_point ok_env store1 ''0123456789abcdef01234567''
      [''userId'' \<mapsto> Str ''u1'', ''caption'' \<mapsto> Str ''sunset''] ''Sky, Cloud'' [1, 2]"
  have run: "process Bedrock ok_env rec_p1 store1 = (Inr Processed, ?w)"
    by (rule run_bedrock_ok [OF post_p1])
  have ups: "upserts (calls ?w) = [(''posts'', [?p])]"
    by (simp add: bedrock_done_def store1_sel)
  from C6_upserted_point [OF run] obtain new
    where "calls ?w = calls store1 @ new"
      and each: "\<forall>(coll, ps) \<in> set (upserts new).
        coll = ''posts'' \<and>
        (\<exists>p c d. ps = [p]
           \<and> point_id p = uuidv4 ok_env (clock store1 + (case Bedrock of Bedrock \<Rightarrow> 4 | Old \<Rightarrow> 5))
           \<and> map fst (payload p) = payload_fields Bedrock
           \<and> map_of (payload p) ''caption'' = Some (Val c)
           \<and> map_of (payload p) ''imageDescription'' = Some (Val (Str d))
           \<and> (case Bedrock of
                Bedrock \<Rightarrow>
                  bedrock_send ok_env (clock store1 + 3)
                    (json_object1 ''inputText'' (json_quote (combinedText c d)))
                    = Inr (vector p)
              | Old \<Rightarrow>
                  (\<exists>data. embeddings_create ok_env (clock store1 + 3) (combinedText c d) = Inr data
                     \<and> first_embedding data = Inr (vector p))))"
    by blast
  then have "new = calls ?w"
    by (simp add: store1_sel)
  with each ups obtain c d
    where P: "point_id ?p = uuidv4 ok_env 4"
      "map fst (payload ?p) = [''postId'', ''userId'', ''caption'', ''imageDescription'']"
      "map_of (payload ?p) ''caption'' = Some (Val c)"
      "map_of (payload ?p) ''imageDescription'' = Some (Val (Str d))"
      "bedrock_send ok_env 3 (json_object1 ''inputText'' (json_quote (combinedText c d)))
         = Inr (vector ?p)"
    by (auto simp add: store1_sel)
  show ?thesis
    by (intro exI [of _ ?w] exI [of _ ?p] exI [of _ c] exI [of _ d] conjI) (rule run ups P)+
qed

subsection \<open>The persist step is a partial update\<close>

text \<open>
  Claim C7. A run of the loop body that processes a record has rewritten one post,
  the one looked up: it is the document as it was with \<^verbatim>\<open>status\<close> set to
  \<^verbatim>\<open>"processed"\<close> and one more field set, \<^verbatim>\<open>embeddingId\<close> (the id of the point it
  indexes) in index_with_bedrock.mjs, \<^verbatim>\<open>imageDescription\<close> (the description it indexes) in
  index_old.mjs; every other field and every other post is as before. And whatever
  the handler answers for a batch, the store afterwards holds the same posts, each
  with every field outside these two unchanged.
\<close>

theorem C7_partial_update:
  "(process v env r w = (Inr Processed, w') \<longrightarrow>
      (\<exists>i post x p new.
         posts w i = Some post
         \<and> posts w' = (posts w)(i \<mapsto> post(''status'' \<mapsto> Str ''processed'',
               (case v of Bedrock \<Rightarrow> ''embeddingId'' | Old \<Rightarrow> ''imageDescription'') \<mapsto> Str x))
         \<and> calls w' = calls w @ new \<and> upserts new = [(''posts'', [p])]
         \<and> (case v of
               Bedrock \<Rightarrow> x = point_id p
             | Old \<Rightarrow> map_of (payload p) ''imageDescription'' = Some (Val (Str x)))))
   \<and> same_but (enrichment_fields v) (posts w0) (posts (snd (handler v env ev w0)))"
proof (intro conjI impI)
  assume run: "process v env r w = (Inr Processed, w')"
  show "\<exists>i post x p new.
         posts w i = Some post
         \<and> posts w' = (posts w)(i \<mapsto> post(''status'' \<mapsto> Str ''processed'',
               (case v of Bedrock \<Rightarrow> ''embeddingId'' | Old \<Rightarrow> ''imageDescription'') \<mapsto> Str x))
         \<and> calls w' = calls w @ new \<and> upserts new = [(''posts'', [p])]
         \<and> (case v of
               Bedrock \<Rightarrow> x = point_id p
             | Old \<Rightarrow> map_of (payload p) ''imageDescription'' = Some (Val (Str x)))"
  proof (cases v)
    case Bedrock
    with run have "process_bedrock env r w = (Inr Processed, w')"
      by (simp add: process_def)
    from process_bedrock_Inr [OF this]
    obtain key postId i post st labels emb
      where "posts w i = Some post"
        and "w' = bedrock_done env w r key postId i post st labels emb"
      by auto
    with Bedrock show ?thesis
      by (intro exI [of _ i] exI [of _ post] exI [of _ "uuidv4 env (clock w + 4)"]
          exI [of _ "bedrock_point env w postId post labels emb"]
          exI [of _ "drop (length (calls w)) (calls w')"])
        (simp add: done_defs set_fields_def)
  next
    case Old
    with run have "process_old env r w = (Inr Processed, w')"
      by (simp add: process_def)
    from process_old_Inr [OF this]
    obtain key postId i post st desc emb
      where "posts w i = Some post"
        and "w' = old_done env w r key postId i post st desc emb"
      by auto
    with Old show ?thesis
      by (intro exI [of _ i] exI [of _ post] exI [of _ desc]
          exI [of _ "old_point env w postId post desc emb"]
          exI [of _ "drop (length (calls w)) (calls w')"])
        (simp add: done_defs set_fields_def)
  qed
next
  show "same_but (enrichment_fields v) (posts w0) (posts (snd (handler v env ev w0)))"
    by (rule handler_frame)
qed


theorem C7_partial_update_witness:
  "(\<exists>w' i post x.
      process Bedrock ok_env rec_p1 store1 = (Inr Processed, w')
      \<and> posts store1 i = Some post
      \<and> posts w' = (posts store1)(i \<mapsto> post(''status'' \<mapsto> Str ''processed'',
                         ''embeddingId'' \<mapsto> Str x)))
   \<and> (\<exists>d. posts (snd (handler Bedrock ok_env \<lparr>Records = [rec_p1]\<rparr> store1)) p1 = Some d
         \<and> d ''caption'' = Some (Str ''sunset'') \<and> d ''userId'' = Some (Str ''u1''))"
proof -
  let ?w = "bedrock_done ok_env store1 rec_p1 ''posts/u1/0123456789abcdef01234567.jpg''
      ''0123456789abcdef01234567'' p1 [''userId'' \<mapsto> Str ''u1'', ''caption'' \<mapsto> Str ''sunset'']
      (Stream [''ab'', ''cd''] None) ''Sky, Cloud'' [1, 2]"
  note both = C7_partial_update [of Bedrock ok_env rec_p1 store1 ?w store1
      "\<lparr>Records = [rec_p1]\<rparr>"]
  have run: "process Bedrock ok_env rec_p1 store1 = (Inr Processed, ?w)"
    by (rule run_bedrock_ok [OF post_p1])
  from both [THEN conjunct1, rule_format, OF run] obtain i post x
    where upd: "posts store1 i = Some post"
      "posts ?w = (posts store1)(i \<mapsto> post(''status'' \<mapsto> Str ''processed'',
                         ''embeddingId'' \<mapsto> Str x))"
    unfolding variant.case by (elim exE conjE) (rule that)
  have first: "\<exists>w' i post x.
      process Bedrock ok_env rec_p1 store1 = (Inr Processed, w')
      \<and> posts store1 i = Some post
      \<and> posts w' = (posts store1)(i \<mapsto> post(''status'' \<mapsto> Str ''processed'',
                         ''embeddingId'' \<mapsto> Str x))"
    by (intro exI [of _ ?w] exI [of _ i] exI [of _ post] exI [of _ x] conjI) (rule run upd)+
  from both [THEN conjunct2]
  have frame: "same_but [''status'', ''embeddingId''] (posts store1)
      (posts (snd (handler Bedrock ok_env \<lparr>Records = [rec_p1]\<rparr> store1)))"
    by (simp only: enrichment_fields.simps)
  from same_but_Some [OF frame post_p1] obtain d
    where d: "posts (snd (handler Bedrock ok_env \<lparr>Records = [rec_p1]\<rparr> store1)) p1 = Some d"
      and kept: "\<forall>f. f \<notin> set [''status'', ''embeddingId'']
          \<longrightarrow> d f = [''userId'' \<mapsto> Str ''u1'', ''caption'' \<mapsto> Str ''sunset''] f"
    by (elim exE conjE) (rule that)
  from kept [THEN spec, of "''caption''"] kept [THEN spec, of "''userId''"]
  have "d ''caption'' = Some (Str ''sunset'')" and "d ''userId'' = Some (Str ''u1'')"
    by simp_all
  with d have "\<exists>d. posts (snd (handler Bedrock ok_env \<lparr>Records = [rec_p1]\<rparr> store1)) p1 = Some d
      \<and> d ''caption'' = Some (Str ''sunset'') \<and> d ''userId'' = Some (Str ''u1'')"
    by (intro exI [of _ d] conjI)
  with first show ?thesis
    by (rule conjI)
qed

subsection \<open>The same record, twice\<close>









subsection \<open>A batch that is answered 200\<close>

lemma process_Inr_step:
  assumes "process v env r w = (Inr out, w1)"
  shows "\<exists>postId i. resolve env r = Some (postId, i) \<and>
     (posts w i = None \<and> posts w1 = posts w \<and> calls w1 = calls w @ [FindOne i]
      \<or> (\<exists>post x k new p.
            posts w i = Some post \<and> k \<noteq> ''status'' \<and>
            posts w1 = (posts w)(i \<mapsto> post(''status'' \<mapsto> Str ''processed'', k \<mapsto> Str x)) \<and>
            calls w1 = calls w @ new \<and> upserts new = [(''posts'', [p])] \<and>
            map_of (payload p) ''postId'' = Some (Val (Str postId))))"
proof (cases v)
  case Bedrock
  with assms have "process_bedrock env r w = (Inr out, w1)"
    by (simp add: process_def)
  from process_bedrock_Inr [OF this]
  obtain key postId i
    where res: "decodeURIComponent (replace_plus (object_key r)) = Inr key"
      "postId_of key = Inr postId" "ObjectId env postId = Inr i"
      and alt: "out = Skipped \<and> posts w i = None \<and> w1 = traced (FindOne i) w \<or>
        out = Processed \<and>
        (\<exists>post st rek labels emb.
          posts w i = Some post \<and>
          s3_send env (clock w + 1) (bucket_name r) key = Inr st \<and> failure st = None \<and>
          rekognition_send env (clock w + 2) (concat (chunks st)) = Inr rek \<and>
          label_names rek = Inr labels \<and>
          bedrock_send env (clock w + 3) (bedrock_request env post labels) = Inr emb \<and>
          w1 = bedrock_done env w r key postId i post st labels emb)"
    by (elim exE conjE) (rule that; assumption)
  from res have "resolve env r = Some (postId, i)"
    by (simp add: resolve_def)
  moreover from alt have "posts w i = None \<and> posts w1 = posts w \<and> calls w1 = calls w @ [FindOne i]
      \<or> (\<exists>post x k new p.
            posts w i = Some post \<and> k \<noteq> ''status'' \<and>
            posts w1 = (posts w)(i \<mapsto> post(''status'' \<mapsto> Str ''processed'', k \<mapsto> Str x)) \<and>
            calls w1 = calls w @ new \<and> upserts new = [(''posts'', [p])] \<and>
            map_of (payload p) ''postId'' = Some (Val (Str postId)))"
  proof (elim disjE exE conjE)
    assume "posts w i = None" "w1 = traced (FindOne i) w"
    then show ?thesis
      by (simp add: traced_def)
  next
    fix post st rek labels emb
    assume "posts w i = Some post" "w1 = bedrock_done env w r key postId i post st labels emb"
    then show ?thesis
      by (intro disjI2 exI [of _ post] exI [of _ "uuidv4 env (clock w + 4)"]
          exI [of _ "''embeddingId''"] exI [of _ "drop (length (calls w)) (calls w1)"]
          exI [of _ "bedrock_point env w postId post labels emb"])
        (simp add: done_defs set_fields_def)
  qed
  ultimately show ?thesis
    by blast
next
  case Old
  with assms have "process_old env r w = (Inr out, w1)"
    by (simp add: process_def)
  from process_old_Inr [OF this]
  obtain key postId i
    where res: "decodeURIComponent (replace_plus (object_key r)) = Inr key"
      "postId_of key = Inr postId" "ObjectId env postId = Inr i"
      and alt: "out = Skipped \<and> posts w i = None \<and> w1 = traced (FindOne i) w \<or>
        out = Processed \<and>
        (\<exists>post st choices desc data emb.
          posts w i = Some post \<and>
          s3_send env (clock w + 1) (bucket_name r) key = Inr st \<and> failure st = None \<and>
          chat_create env (clock w + 2) (concat (chunks st)) = Inr choices \<and>
          vision_description choices = Inr desc \<and>
          embeddings_create env (clock w + 3) (old_text post desc) = Inr data \<and>
          first_embedding data = Inr emb \<and>
          w1 = old_done env w r key postId i post st desc emb)"
    by (elim exE conjE) (rule that; assumption)
  from res have "resolve env r = Some (postId, i)"
    by (simp add: resolve_def)
  moreover from alt have "posts w i = None \<and> posts w1 = posts w \<and> calls w1 = calls w @ [FindOne i]
      \<or> (\<exists>post x k new p.
            posts w i = Some post \<and> k \<noteq> ''status'' \<and>
            posts w1 = (posts w)(i \<mapsto> post(''status'' \<mapsto> Str ''processed'', k \<mapsto> Str x)) \<and>
            calls w1 = calls w @ new \<and> upserts new = [(''posts'', [p])] \<and>
            map_of (payload p) ''postId'' = Some (Val (Str postId)))"
  proof (elim disjE exE conjE)
    assume "posts w i = None" "w1 = traced (FindOne i) w"
    then show ?thesis
      by (simp add: traced_def)
  next
    fix post st choices desc data emb
    assume "posts w i = Some post" "w1 = old_done env w r key postId i post st desc emb"
    then show ?thesis
      by (intro disjI2 exI [of _ post] exI [of _ desc]
          exI [of _ "''imageDescription''"] exI [of _ "drop (length (calls w)) (calls w1)"]
          exI [of _ "old_point env w postId post desc emb"])
        (simp add: done_defs set_fields_def)
  qed
  ultimately show ?thesis
    by blast
qed


lemma upserted_ids_append: "upserted_ids (xs @ ys) = upserted_ids xs @ upserted_ids ys"
  by (simp add: upserted_ids_def upserts_append)

lemma present_ids_cong:
  assumes "\<And>j. ps' j = None \<longleftrightarrow> ps j = None"
  shows "present_ids env ps' rs = present_ids env ps rs"
proof -
  have "(\<lambda>r. case resolve env r of
               None \<Rightarrow> []
             | Some (postId, i) \<Rightarrow> (if ps' i = None then [] else [postId]))
      = (\<lambda>r. case resolve env r of
               None \<Rightarrow> []
             | Some (postId, i) \<Rightarrow> (if ps i = None then [] else [postId]))"
    by (rule ext) (simp add: assms split: option.splits prod.splits)
  then show ?thesis
    by (simp only: present_ids_def)
qed

lemma process_Inr_summary:
  assumes "process v env r w = (Inr out, w1)"
  shows "\<exists>postId i new.
     resolve env r = Some (postId, i)
     \<and> (\<forall>j. posts w1 j = None \<longleftrightarrow> posts w j = None)
     \<and> (\<forall>j d. posts w j = Some d \<and> d ''status'' = Some (Str ''processed'')
           \<longrightarrow> (\<exists>d'. posts w1 j = Some d' \<and> d' ''status'' = Some (Str ''processed'')))
     \<and> (posts w i \<noteq> None
           \<longrightarrow> (\<exists>d. posts w1 i = Some d \<and> d ''status'' = Some (Str ''processed'')))
     \<and> calls w1 = calls w @ new
     \<and> upserted_ids new =
         (if posts w i = None then [] else [(''posts'', [Some (Val (Str postId))])])"
proof -
  from process_Inr_step [OF assms] obtain postId i
    where res: "resolve env r = Some (postId, i)"
      and alt: "posts w i = None \<and> posts w1 = posts w \<and> calls w1 = calls w @ [FindOne i]
        \<or> (\<exists>post x k new p.
              posts w i = Some post \<and> k \<noteq> ''status'' \<and>
              posts w1 = (posts w)(i \<mapsto> post(''status'' \<mapsto> Str ''processed'', k \<mapsto> Str x)) \<and>
              calls w1 = calls w @ new \<and> upserts new = [(''posts'', [p])] \<and>
              map_of (payload p) ''postId'' = Some (Val (Str postId)))"
    by (elim exE conjE) (rule that; assumption)
  from alt show ?thesis
  proof (elim disjE exE conjE)
    assume "posts w i = None" "posts w1 = posts w" "calls w1 = calls w @ [FindOne i]"
    with res show ?thesis
      by (intro exI [of _ postId] exI [of _ i] exI [of _ "[FindOne i]"])
        (simp add: upserted_ids_def)
  next
    fix post x k new p
    assume "posts w i = Some post" "k \<noteq> ''status''"
      "posts w1 = (posts w)(i \<mapsto> post(''status'' \<mapsto> Str ''processed'', k \<mapsto> Str x))"
      "calls w1 = calls w @ new" "upserts new = [(''posts'', [p])]"
      "map_of (payload p) ''postId'' = Some (Val (Str postId))"
    with res show ?thesis
      by (intro exI [of _ postId] exI [of _ i] exI [of _ new])
        (simp add: upserted_ids_def)
  qed
qed


lemma for_records_Inr:
  assumes "for_records (process v env) rs w = (Inr u, w')"
  shows "(\<forall>j. posts w' j = None \<longleftrightarrow> posts w j = None)
     \<and> (\<forall>j d. posts w j = Some d \<and> d ''status'' = Some (Str ''processed'')
           \<longrightarrow> (\<exists>d'. posts w' j = Some d' \<and> d' ''status'' = Some (Str ''processed'')))
     \<and> (\<forall>r \<in> set rs. \<forall>postId i. resolve env r = Some (postId, i) \<and> posts w i \<noteq> None
           \<longrightarrow> (\<exists>d. posts w' i = Some d \<and> d ''status'' = Some (Str ''processed'')))
     \<and> (\<exists>new. calls w' = calls w @ new
           \<and> upserted_ids new =
               map (\<lambda>postId. (''posts'', [Some (Val (Str postId))]))
                 (present_ids env (posts w) rs))"
  using assms
proof (induction rs arbitrary: w)
  case Nil
  then show ?case
    by (simp add: io_return_def present_ids_def upserted_ids_def)
next
  case (Cons r rs)
  obtain x w1 where step: "process v env r w = (x, w1)"
    by (cases "process v env r w")
  with Cons.prems obtain out where out: "x = Inr out"
    and rest: "for_records (process v env) rs w1 = (Inr u, w')"
    by (cases x) (simp_all add: io_bind_def)
  from process_Inr_summary [OF step [unfolded out]] obtain postId i new1
    where res: "resolve env r = Some (postId, i)"
      and dom1: "\<forall>j. posts w1 j = None \<longleftrightarrow> posts w j = None"
      and keep1: "\<forall>j d. posts w j = Some d \<and> d ''status'' = Some (Str ''processed'')
           \<longrightarrow> (\<exists>d'. posts w1 j = Some d' \<and> d' ''status'' = Some (Str ''processed''))"
      and done1: "posts w i \<noteq> None
           \<longrightarrow> (\<exists>d. posts w1 i = Some d \<and> d ''status'' = Some (Str ''processed''))"
      and calls1: "calls w1 = calls w @ new1"
      and ups1: "upserted_ids new1 =
         (if posts w i = None then [] else [(''posts'', [Some (Val (Str postId))])])"
    by (elim exE conjE) (rule that; assumption)
  from Cons.IH [OF rest] obtain new2
    where dom2: "\<forall>j. posts w' j = None \<longleftrightarrow> posts w1 j = None"
      and keep2: "\<forall>j d. posts w1 j = Some d \<and> d ''status'' = Some (Str ''processed'')
           \<longrightarrow> (\<exists>d'. posts w' j = Some d' \<and> d' ''status'' = Some (Str ''processed''))"
      and done2: "\<forall>r \<in> set rs. \<forall>postId i. resolve env r = Some (postId, i) \<and> posts w1 i \<noteq> None
           \<longrightarrow> (\<exists>d. posts w' i = Some d \<and> d ''status'' = Some (Str ''processed''))"
      and calls2: "calls w' = calls w1 @ new2"
      and ups2: "upserted_ids new2 =
               map (\<lambda>postId. (''posts'', [Some (Val (Str postId))]))
                 (present_ids env (posts w1) rs)"
    by (elim exE conjE) (rule that; assumption)
  have dom: "\<forall>j. posts w' j = None \<longleftrightarrow> posts w j = None"
    using dom1 dom2 by simp
  have keep: "\<forall>j d. posts w j = Some d \<and> d ''status'' = Some (Str ''processed'')
           \<longrightarrow> (\<exists>d'. posts w' j = Some d' \<and> d' ''status'' = Some (Str ''processed''))"
    using keep1 keep2 by blast
  have head: "\<exists>d. posts w' i = Some d \<and> d ''status'' = Some (Str ''processed'')"
    if "posts w i \<noteq> None"
    using that done1 keep2 by blast
  have tail: "\<exists>d. posts w' i' = Some d \<and> d ''status'' = Some (Str ''processed'')"
    if "r' \<in> set rs" "resolve env r' = Some (postId', i')" "posts w i' \<noteq> None"
    for r' postId' i'
  proof -
    from that(3) dom1 have "posts w1 i' \<noteq> None"
      by simp
    with done2 that(1,2) show ?thesis
      by (elim ballE [of _ _ r'] allE [of _ postId'] allE [of _ i']) simp_all
  qed
  have all: "\<forall>r' \<in> set (r # rs). \<forall>postId' i'.
      resolve env r' = Some (postId', i') \<and> posts w i' \<noteq> None
        \<longrightarrow> (\<exists>d. posts w' i' = Some d \<and> d ''status'' = Some (Str ''processed''))"
    using head tail res by auto
  have "present_ids env (posts w1) rs = present_ids env (posts w) rs"
    by (rule present_ids_cong) (simp add: dom1)
  with ups1 ups2 res have ups: "upserted_ids (new1 @ new2) =
      map (\<lambda>postId. (''posts'', [Some (Val (Str postId))]))
        (present_ids env (posts w) (r # rs))"
    by (simp add: upserted_ids_append present_ids_def)
  from calls1 calls2 have "calls w' = calls w @ (new1 @ new2)"
    by simp
  with ups have "\<exists>new. calls w' = calls w @ new
      \<and> upserted_ids new =
          map (\<lambda>postId. (''posts'', [Some (Val (Str postId))]))
            (present_ids env (posts w) (r # rs))"
    by blast
  with dom keep all show ?case
    by blast
qed


lemma batch_200_processed:
  assumes "handler v env ev w0 = (resp, w')"
    and "statusCode resp = 200"
  shows "(\<forall>r \<in> set (Records ev). \<forall>postId i.
            resolve env r = Some (postId, i) \<and> posts w0 i \<noteq> None
            \<longrightarrow> (\<exists>d. posts w' i = Some d \<and> d ''status'' = Some (Str ''processed'')))
     \<and> (\<exists>new. calls w' = calls w0 @ [MongoConnect] @ new @ [MongoClose]
           \<and> upserted_ids new =
               map (\<lambda>postId. (''posts'', [Some (Val (Str postId))]))
                 (present_ids env (posts w0) (Records ev)))"
proof -
  from assms have up: "connect env (clock w0) = None"
    by (auto simp add: handler_run split: option.splits)
  obtain x w1 where loop: "for_records (process v env) (Records ev) (after_connect w0) = (x, w1)"
    by (cases "for_records (process v env) (Records ev) (after_connect w0)")
  with assms up obtain u where x: "x = Inr u" and w': "w' = mongo_close w1"
    by (cases x) (auto simp add: handler_run)
  have start: "posts (after_connect w0) = posts w0"
    "calls (after_connect w0) = calls w0 @ [MongoConnect]"
    by (simp_all add: after_connect_def traced_def)
  from for_records_Inr [OF loop [unfolded x]] obtain new
    where each: "\<forall>r \<in> set (Records ev). \<forall>postId i.
        resolve env r = Some (postId, i) \<and> posts (after_connect w0) i \<noteq> None
        \<longrightarrow> (\<exists>d. posts w1 i = Some d \<and> d ''status'' = Some (Str ''processed''))"
      and calls: "calls w1 = calls (after_connect w0) @ new"
      and ups: "upserted_ids new =
               map (\<lambda>postId. (''posts'', [Some (Val (Str postId))]))
                 (present_ids env (posts (after_connect w0)) (Records ev))"
    by (elim exE conjE) (rule that; assumption)
  have "posts w' = posts w1" and "calls w' = calls w0 @ [MongoConnect] @ new @ [MongoClose]"
    using calls by (simp_all add: w' mongo_close_def traced_def start)
  with each ups show ?thesis
    unfolding start by (intro conjI exI [of _ new]) simp_all
qed

lemma loop_absent_then_p1:
  "for_records (process Bedrock ok_env) [rec_absent, rec_p1] (after_connect store1) =
     (Inr (),
      bedrock_done ok_env (traced (FindOne (OID ''ffffffffffffffffffffffff'')) (after_connect store1))
        rec_p1 ''posts/u1/0123456789abcdef01234567.jpg'' ''0123456789abcdef01234567'' p1
        [''userId'' \<mapsto> Str ''u1'', ''caption'' \<mapsto> Str ''sunset'']
        (Stream [''ab'', ''cd''] None) ''Sky, Cloud'' [1, 2])"
proof -
  let ?w = "traced (FindOne (OID ''ffffffffffffffffffffffff'')) (after_connect store1)"
  have "process Bedrock ok_env rec_absent (after_connect store1) = (Inr Skipped, ?w)"
    by (rule process_absent [OF key_absent postId_absent oid_absent])
      (simp_all add: ok_env_sel after_connect_def traced_def store1_sel p1_def)
  moreover have "posts ?w p1 = Some [''userId'' \<mapsto> Str ''u1'', ''caption'' \<mapsto> Str ''sunset'']"
    by (simp add: after_connect_def traced_def store1_sel)
  ultimately show ?thesis
    by (simp add: io_bind_def io_return_def run_bedrock_ok)
qed

lemma resolve_absent:
  "resolve ok_env rec_absent = Some (''ffffffffffffffffffffffff'', OID ''ffffffffffffffffffffffff'')"
  by (simp add: resolve_def key_absent postId_absent oid_absent)

lemma resolve_p1: "resolve ok_env rec_p1 = Some (''0123456789abcdef01234567'', p1)"
  by (simp add: resolve_def key_p1 postId_p1 oid_p1)

text \<open>
  Claim C1. A record whose path resolves to the id of a post of the record store: a
  run of the loop body that does not throw has processed it, the post's \<^verbatim>\<open>status\<close> is
  \<^verbatim>\<open>"processed"\<close> afterwards, and the run has made exactly one upsert, of exactly one
  point, into the collection \<^verbatim>\<open>posts\<close>, whose payload's \<^verbatim>\<open>postId\<close> is the resolved id; the
  index holds one point more when the point's identity was not in it. And for a batch
  that the handler answers 200: every record of the batch whose id resolves to a post
  of the store has its post's \<^verbatim>\<open>status\<close> at \<^verbatim>\<open>"processed"\<close> afterwards, and between the
  connection and its close the trace holds exactly one upsert for each such record,
  in the order of the batch, to the collection \<^verbatim>\<open>posts\<close>, of one point whose payload
  \<^verbatim>\<open>postId\<close> is the record's id.
\<close>

theorem C1_processed:
  "(decodeURIComponent (replace_plus (object_key r)) = Inr key
      \<and> postId_of key = Inr postId \<and> ObjectId env postId = Inr i
      \<and> posts w i = Some post \<and> process v env r w = (Inr out, w')
    \<longrightarrow> out = Processed
      \<and> (\<exists>post'. posts w' i = Some post' \<and> post' ''status'' = Some (Str ''processed''))
      \<and> (\<exists>p new. calls w' = calls w @ new \<and> upserts new = [(''posts'', [p])]
            \<and> map_of (payload p) ''postId'' = Some (Val (Str postId))
            \<and> qdrant w' = (qdrant w)(''posts'' := upsert_point p (qdrant w ''posts''))
            \<and> (point_id p \<notin> point_id ` set (qdrant w ''posts'')
                 \<longrightarrow> length (qdrant w' ''posts'') = Suc (length (qdrant w ''posts'')))))
   \<and> (handler v env ev w0 = (resp, w'') \<and> statusCode resp = 200
    \<longrightarrow> (\<forall>r \<in> set (Records ev). \<forall>postId i.
            resolve env r = Some (postId, i) \<and> posts w0 i \<noteq> None
            \<longrightarrow> (\<exists>d. posts w'' i = Some d \<and> d ''status'' = Some (Str ''processed'')))
      \<and> (\<exists>new. calls w'' = calls w0 @ [MongoConnect] @ new @ [MongoClose]
            \<and> upserted_ids new =
                map (\<lambda>postId. (''posts'', [Some (Val (Str postId))]))
                  (present_ids env (posts w0) (Records ev))))"
proof (rule conjI; rule impI; elim conjE)
  assume "decodeURIComponent (replace_plus (object_key r)) = Inr key"
    and "postId_of key = Inr postId" and "ObjectId env postId = Inr i"
    and "posts w i = Some post" and "process v env r w = (Inr out, w')"
  then show "out = Processed
      \<and> (\<exists>post'. posts w' i = Some post' \<and> post' ''status'' = Some (Str ''processed''))
      \<and> (\<exists>p new. calls w' = calls w @ new \<and> upserts new = [(''posts'', [p])]
            \<and> map_of (payload p) ''postId'' = Some (Val (Str postId))
            \<and> qdrant w' = (qdrant w)(''posts'' := upsert_point p (qdrant w ''posts''))
            \<and> (point_id p \<notin> point_id ` set (qdrant w ''posts'')
                 \<longrightarrow> length (qdrant w' ''posts'') = Suc (length (qdrant w ''posts''))))"
    by (rule record_processed)
next
  assume "handler v env ev w0 = (resp, w'')" and "statusCode resp = 200"
  then show "(\<forall>r \<in> set (Records ev). \<forall>postId i.
            resolve env r = Some (postId, i) \<and> posts w0 i \<noteq> None
            \<longrightarrow> (\<exists>d. posts w'' i = Some d \<and> d ''status'' = Some (Str ''processed'')))
      \<and> (\<exists>new. calls w'' = calls w0 @ [MongoConnect] @ new @ [MongoClose]
            \<and> upserted_ids new =
                map (\<lambda>postId. (''posts'', [Some (Val (Str postId))]))
                  (present_ids env (posts w0) (Records ev)))"
    by (rule batch_200_processed)
qed

theorem C1_processed_witness:
  "(\<exists>w'. process Old ok_env rec_p1 store1 = (Inr Processed, w')
     \<and> (\<exists>post'. posts w' p1 = Some post' \<and> post' ''status'' = Some (Str ''processed''))
     \<and> (\<exists>p new. calls w' = calls store1 @ new \<and> upserts new = [(''posts'', [p])]
          \<and> map_of (payload p) ''postId'' = Some (Val (Str ''0123456789abcdef01234567''))
          \<and> qdrant w' = (qdrant store1)(''posts'' := upsert_point p (qdrant store1 ''posts''))
          \<and> length (qdrant w' ''posts'') = Suc (length (qdrant store1 ''posts''))))
   \<and> (\<exists>w'. handler Bedrock ok_env \<lparr>Records = [rec_absent, rec_p1]\<rparr> store1 =
          (\<lparr>statusCode = 200, body = json_object1 ''success'' ''true''\<rparr>, w')
     \<and> (\<exists>d. posts w' p1 = Some d \<and> d ''status'' = Some (Str ''processed''))
     \<and> (\<exists>new. calls w' = [MongoConnect] @ new @ [MongoClose]
           \<and> upserted_ids new = [(''posts'', [Some (Val (Str ''0123456789abcdef01234567''))])]))"
proof (rule conjI)
  let ?w = "old_done ok_env store1 rec_p1 ''posts/u1/0123456789abcdef01234567.jpg''
      ''0123456789abcdef01234567'' p1 [''userId'' \<mapsto> Str ''u1'', ''caption'' \<mapsto> Str ''sunset'']
      (Stream [''ab'', ''cd''] None) ''a sunset'' [1, 2]"
  have run: "process Old ok_env rec_p1 store1 = (Inr Processed, ?w)"
    by (rule run_old_ok [OF post_p1])
  from C1_processed [THEN conjunct1, rule_format,
      OF conjI [OF key_p1 conjI [OF postId_p1 conjI [OF oid_p1 conjI [OF post_p1 run]]]]]
  have "(\<exists>post'. posts ?w p1 = Some post' \<and> post' ''status'' = Some (Str ''processed''))
     \<and> (\<exists>p new. calls ?w = calls store1 @ new \<and> upserts new = [(''posts'', [p])]
          \<and> map_of (payload p) ''postId'' = Some (Val (Str ''0123456789abcdef01234567''))
          \<and> qdrant ?w = (qdrant store1)(''posts'' := upsert_point p (qdrant store1 ''posts''))
          \<and> length (qdrant ?w ''posts'') = Suc (length (qdrant store1 ''posts'')))"
    by (simp add: store1_sel)
  with run show "\<exists>w'. process Old ok_env rec_p1 store1 = (Inr Processed, w')
     \<and> (\<exists>post'. posts w' p1 = Some post' \<and> post' ''status'' = Some (Str ''processed''))
     \<and> (\<exists>p new. calls w' = calls store1 @ new \<and> upserts new = [(''posts'', [p])]
          \<and> map_of (payload p) ''postId'' = Some (Val (Str ''0123456789abcdef01234567''))
          \<and> qdrant w' = (qdrant store1)(''posts'' := upsert_point p (qdrant store1 ''posts''))
          \<and> length (qdrant w' ''posts'') = Suc (length (qdrant store1 ''posts'')))"
    by (intro exI [of _ ?w]) (rule conjI)
next
  let ?ev = "\<lparr>Records = [rec_absent, rec_p1]\<rparr>"
  let ?w' = "mongo_close (bedrock_done ok_env
      (traced (FindOne (OID ''ffffffffffffffffffffffff'')) (after_connect store1))
      rec_p1 ''posts/u1/0123456789abcdef01234567.jpg'' ''0123456789abcdef01234567'' p1
      [''userId'' \<mapsto> Str ''u1'', ''caption'' \<mapsto> Str ''sunset'']
      (Stream [''ab'', ''cd''] None) ''Sky, Cloud'' [1, 2])"
  have run: "handler Bedrock ok_env ?ev store1 =
      (\<lparr>statusCode = 200, body = json_object1 ''success'' ''true''\<rparr>, ?w')"
    by (rule handler_ok [OF _ loop_absent_then_p1]) (simp add: ok_env_sel)
  have ok: "statusCode \<lparr>statusCode = 200, body = json_object1 ''success'' ''true''\<rparr> = 200"
    by simp
  have ids: "present_ids ok_env (posts store1) (Records ?ev) = [''0123456789abcdef01234567'']"
    by (simp add: present_ids_def resolve_absent resolve_p1 store1_sel p1_def)
  from C1_processed [THEN conjunct2, rule_format, OF conjI [OF run ok]] have
    each: "\<forall>r \<in> set (Records ?ev). \<forall>postId i.
            resolve ok_env r = Some (postId, i) \<and> posts store1 i \<noteq> None
            \<longrightarrow> (\<exists>d. posts ?w' i = Some d \<and> d ''status'' = Some (Str ''processed''))"
    and trace: "\<exists>new. calls ?w' = calls store1 @ [MongoConnect] @ new @ [MongoClose]
           \<and> upserted_ids new =
               map (\<lambda>postId. (''posts'', [Some (Val (Str postId))]))
                 (present_ids ok_env (posts store1) (Records ?ev))"
    by (rule conjunct1, rule conjunct2)
  from each resolve_p1 post_p1
  have one: "\<exists>d. posts ?w' p1 = Some d \<and> d ''status'' = Some (Str ''processed'')"
    by (elim ballE [of _ _ rec_p1] allE [of _ "''0123456789abcdef01234567''"] allE [of _ p1])
      simp_all
  from trace have two: "\<exists>new. calls ?w' = [MongoConnect] @ new @ [MongoClose]
      \<and> upserted_ids new = [(''posts'', [Some (Val (Str ''0123456789abcdef01234567''))])]"
    unfolding ids by (simp add: store1_sel)
  show "\<exists>w'. handler Bedrock ok_env ?ev store1 =
          (\<lparr>statusCode = 200, body = json_object1 ''success'' ''true''\<rparr>, w')
     \<and> (\<exists>d. posts w' p1 = Some d \<and> d ''status'' = Some (Str ''processed''))
     \<and> (\<exists>new. calls w' = [MongoConnect] @ new @ [MongoClose]
           \<and> upserted_ids new = [(''posts'', [Some (Val (Str ''0123456789abcdef01234567''))])])"
    by (intro exI [of _ ?w'] conjI) (rule run one two)+
qed

end
